theory Spec2Isabelle
  imports Main "HOL-Library.Word"
begin

unbundle bit_operations_syntax

section \<open>Bytes, errors and readers\<close>

type_synonym byte = "8 word"
type_synonym bytes = "byte list"
type_synonym uint32 = "32 word"
type_synonym uint64 = "64 word"

text \<open>
  The errors that \<^verbatim>\<open>p2p/qkchandle.go\<close> returns itself, the two errors of
  \<^verbatim>\<open>io.ReadFull\<close>, the failure of a write on the connection, and the errors that
  come out of collaborators (snappy, the domain-message decoder, the base handshake).
\<close>

datatype error =
    ErrEOF
  | ErrUnexpectedEOF
  | ErrBadHeaderMAC
  | ErrBadFrameMAC
  | ErrPlainMessageTooLarge
  | ErrConnWrite
  | ErrExternal string

text \<open>
  A Go call either returns or panics. \<open>Panic\<close> is the run-time panic of a method call
  on a nil interface value.
\<close>

datatype 'a go = Ret 'a | Panic

text \<open>
  \<^verbatim>\<open>Msg.Payload\<close> is an \<^verbatim>\<open>io.Reader\<close>: nil (the zero value of \<^verbatim>\<open>Msg\<close>), a reader
  over the bytes that are left to read, or a reader whose \<^verbatim>\<open>Read\<close> fails.
\<close>

datatype reader = NilReader | BytesReader bytes | ErrReader error

text \<open>
  \<^verbatim>\<open>ioutil.ReadAll\<close>: the bytes read and the error; the reader is left exhausted.
  On a nil reader the call of \<^verbatim>\<open>Read\<close> panics.
\<close>

fun ReadAll :: "reader \<Rightarrow> (bytes \<times> error option) go" where
  "ReadAll NilReader = Panic"
| "ReadAll (BytesReader b) = Ret (b, None)"
| "ReadAll (ErrReader e) = Ret ([], Some e)"

record Msg =
  Code :: uint64
  Size :: uint32
  Payload :: reader

definition zeroMsg :: Msg where
  "zeroMsg = \<lparr>Code = 0, Size = 0, Payload = NilReader\<rparr>"

section \<open>Big-endian length field\<close>

text \<open>\<^verbatim>\<open>binary.BigEndian.PutUint32\<close> and \<^verbatim>\<open>binary.BigEndian.Uint32\<close>.\<close>

definition PutUint32 :: "uint32 \<Rightarrow> bytes" where
  "PutUint32 v = [ucast (drop_bit 24 v), ucast (drop_bit 16 v), ucast (drop_bit 8 v), ucast v]"

definition Uint32 :: "bytes \<Rightarrow> uint32" where
  "Uint32 b = ucast (b ! 3) OR push_bit 8 (ucast (b ! 2)) OR push_bit 16 (ucast (b ! 1))
     OR push_bit 24 (ucast (b ! 0))"

text \<open>
  The three-byte big-endian reading of a header (\<^verbatim>\<open>readInt24\<close> of the base RLPx
  transport), for comparison with the four-byte field that this transport uses.
\<close>

definition Uint24 :: "bytes \<Rightarrow> uint32" where
  "Uint24 b = ucast (b ! 2) OR push_bit 8 (ucast (b ! 1)) OR push_bit 16 (ucast (b ! 0))"

text \<open>The built-in \<^verbatim>\<open>copy(dst, src)\<close>: the contents of \<open>dst\<close> afterwards.\<close>

definition copy_bytes :: "bytes \<Rightarrow> bytes \<Rightarrow> bytes" where
  "copy_bytes dst src = take (length dst) src @ drop (length src) dst"

section \<open>Stream cipher, connection, frame state\<close>

text \<open>
  A \<^verbatim>\<open>cipher.Stream\<close> is its remaining key stream: \<open>s i\<close> is the \<open>i\<close>-th key byte
  still to come. \<^verbatim>\<open>XORKeyStream\<close> XORs the source with the next key bytes and
  advances the stream by the length of the source.
\<close>

type_synonym stream = "nat \<Rightarrow> byte"

fun xor_bytes :: "stream \<Rightarrow> bytes \<Rightarrow> bytes" where
  "xor_bytes s [] = []"
| "xor_bytes s (b # bs) = (b XOR s 0) # xor_bytes (\<lambda>i. s (Suc i)) bs"

definition XORKeyStream :: "stream \<Rightarrow> bytes \<Rightarrow> bytes \<times> stream" where
  "XORKeyStream s src = (xor_bytes s src, (\<lambda>i. s (i + length src)))"

text \<open>
  The connection: the bytes that will still arrive before the peer closes, the bytes
  written so far, and how many more bytes can be written before writes start to fail
  (\<open>None\<close>: writes never fail).
\<close>

record netconn =
  rd :: bytes
  wr :: bytes
  wcap :: "nat option"

definition ReadFull :: "netconn \<Rightarrow> nat \<Rightarrow> (error + bytes) \<times> netconn" where
  "ReadFull c n =
     (if n \<le> length (rd c) then (Inr (take n (rd c)), c\<lparr>rd := drop n (rd c)\<rparr>)
      else (Inl (if rd c = [] then ErrEOF else ErrUnexpectedEOF), c\<lparr>rd := []\<rparr>))"

definition conn_Write :: "netconn \<Rightarrow> bytes \<Rightarrow> error option \<times> netconn" where
  "conn_Write c bs =
     (case wcap c of
        None \<Rightarrow> (None, c\<lparr>wr := wr c @ bs\<rparr>)
      | Some k \<Rightarrow>
          if length bs \<le> k then (None, c\<lparr>wr := wr c @ bs, wcap := Some (k - length bs)\<rparr>)
          else (Some ErrConnWrite, c\<lparr>wr := wr c @ take k bs, wcap := Some 0\<rparr>))"

text \<open>
  The state of a \<^verbatim>\<open>hash.Hash\<close> accumulator and the key of the MAC block cipher are
  opaque byte strings.
\<close>

type_synonym mac = bytes

text \<open>
  \<^verbatim>\<open>rlpxFrameRW\<close>, the fields that \<^verbatim>\<open>readQKCMsg\<close> and \<^verbatim>\<open>writeQKCMsg\<close> use.
  \<open>snappyDecodeCalls\<close> is not a field of the Go struct: it counts the calls of
  \<^verbatim>\<open>snappy.Decode\<close>, so that a statement can say that none was made.
\<close>

record rlpxFrameRW =
  conn :: netconn
  enc :: stream
  dec :: stream
  macCipher :: bytes
  egressMAC :: mac
  ingressMAC :: mac
  snappy :: bool
  snappyDecodeCalls :: nat

section \<open>Collaborators outside the two source files\<close>

text \<open>
  Functions and constants that the source calls and that are declared elsewhere are
  parameters: \<^verbatim>\<open>updateMAC\<close> (it updates the accumulator and returns the MAC), the
  \<^verbatim>\<open>Write\<close> and \<^verbatim>\<open>Sum\<close> of the accumulator, the three snappy functions,
  \<^verbatim>\<open>baseProtocolLength\<close>, \<^verbatim>\<open>DecodeQKCMsg\<close>, \<^verbatim>\<open>makeMsg\<close> at the Hello command, the
  base \<^verbatim>\<open>rlpx.doProtoHandshake\<close> and the three opcode tables.
\<close>

record QKCMsg =
  metaData :: bytes
  op :: nat
  rpcID :: uint64
  data :: bytes

text \<open>\<^verbatim>\<open>protoHandshake\<close>: only the field \<^verbatim>\<open>ID\<close> is read here.\<close>

record protoHandshake =
  hsVersion :: uint64
  hsID :: bytes

record env =
  updateMAC :: "mac \<Rightarrow> bytes \<Rightarrow> bytes \<Rightarrow> bytes \<times> mac"
  macWrite :: "mac \<Rightarrow> bytes \<Rightarrow> mac"
  macSum :: "mac \<Rightarrow> bytes"
  snappyEncode :: "bytes \<Rightarrow> bytes"
  snappyDecodedLen :: "bytes \<Rightarrow> error + nat"
  snappyDecode :: "bytes \<Rightarrow> error + bytes"
  baseProtocolLength :: uint64
  DecodeQKCMsg :: "bytes \<Rightarrow> error + QKCMsg"
  makeMsgHello :: "protoHandshake \<Rightarrow> Msg \<times> error option"
  rlpxDoProtoHandshake ::
    "rlpxFrameRW \<Rightarrow> protoHandshake \<Rightarrow> (protoHandshake option \<times> error option) \<times> rlpxFrameRW"
  OPSerializerMap :: "nat \<Rightarrow> string option"
  OPNonRPCMap :: "nat \<Rightarrow> nat option"
  OpRPCMap :: "nat \<Rightarrow> nat option"

text \<open>
  Modelled from the spec: the constant \<^verbatim>\<open>maxUint24\<close> is declared outside the source
  files; the spec calls it the fixed maximum, the 24-bit length bound.
\<close>

definition maxUint24 :: uint32 where
  "maxUint24 = 0xFFFFFF"

section \<open>Reading a frame\<close>

text \<open>
  \<^verbatim>\<open>readQKCMsg\<close>, lines 101 to 133: header, header MAC, body, frame MAC, decryption.
  Every error return of these lines returns the zero \<^verbatim>\<open>Msg\<close>. \<^verbatim>\<open>hmac.Equal\<close> is
  equality of byte strings, lengths included.
\<close>

definition readQKCFrame :: "env \<Rightarrow> rlpxFrameRW \<Rightarrow> (error + bytes) \<times> rlpxFrameRW" where
  "readQKCFrame E q =
     (case ReadFull (conn q) 32 of
        (Inl e, c1) \<Rightarrow> (Inl e, q\<lparr>conn := c1\<rparr>)
      | (Inr headBuf, c1) \<Rightarrow>
          let (shouldMAC, in1) = updateMAC E (ingressMAC q) (macCipher q) (take 16 headBuf);
              q1 = q\<lparr>conn := c1, ingressMAC := in1\<rparr>
          in if shouldMAC \<noteq> drop 16 headBuf then (Inl ErrBadHeaderMAC, q1)
             else
               let (hdr, dec1) = XORKeyStream (dec q1) (take 16 headBuf);
                   fSize = Uint32 (take 4 hdr);
                   q2 = q1\<lparr>dec := dec1\<rparr>
               in (case ReadFull (conn q2) (unat fSize) of
                     (Inl e, c2) \<Rightarrow> (Inl e, q2\<lparr>conn := c2\<rparr>)
                   | (Inr frameBuf, c2) \<Rightarrow>
                       let in2 = macWrite E (ingressMAC q2) frameBuf;
                           fMacSeed = macSum E in2;
                           q3 = q2\<lparr>conn := c2, ingressMAC := in2\<rparr>
                       in (case ReadFull (conn q3) 16 of
                             (Inl e, c3) \<Rightarrow> (Inl e, q3\<lparr>conn := c3\<rparr>)
                           | (Inr trailer, c3) \<Rightarrow>
                               let (shouldMAC2, in3) =
                                     updateMAC E (ingressMAC q3) (macCipher q3) fMacSeed;
                                   q4 = q3\<lparr>conn := c3, ingressMAC := in3\<rparr>
                               in if shouldMAC2 \<noteq> trailer then (Inl ErrBadFrameMAC, q4)
                                  else
                                    let (content, dec2) = XORKeyStream (dec q4) frameBuf
                                    in (Inr content, q4\<lparr>dec := dec2\<rparr>))))"

text \<open>
  \<^verbatim>\<open>readQKCMsg\<close>: the lines above, then lines 135 to 160. In the snappy branch
  \<^verbatim>\<open>ioutil.ReadAll\<close> reads a \<^verbatim>\<open>bytes.Reader\<close>: it cannot fail, and it leaves the
  reader that \<^verbatim>\<open>msg.Payload\<close> holds exhausted, which is what the error returns of that
  branch hand back.
\<close>

definition readQKCMsg :: "env \<Rightarrow> rlpxFrameRW \<Rightarrow> (Msg \<times> error option) \<times> rlpxFrameRW" where
  "readQKCMsg E q =
     (case readQKCFrame E q of
        (Inl e, q') \<Rightarrow> ((zeroMsg, Some e), q')
      | (Inr content, q') \<Rightarrow>
          let msg = zeroMsg\<lparr>Size := of_nat (length content), Payload := BytesReader content\<rparr>
          in if snappy q' then
               let payload = content;
                   msg = msg\<lparr>Payload := BytesReader []\<rparr>
               in (case snappyDecodedLen E payload of
                     Inl e \<Rightarrow> ((msg, Some e), q')
                   | Inr sz \<Rightarrow>
                       if sz > unat maxUint24 then ((msg, Some ErrPlainMessageTooLarge), q')
                       else
                         let q'' = q'\<lparr>snappyDecodeCalls := Suc (snappyDecodeCalls q')\<rparr>
                         in (case snappyDecode E payload of
                               Inl e \<Rightarrow> ((msg, Some e), q'')
                             | Inr payload \<Rightarrow>
                                 ((msg\<lparr>Size := of_nat sz, Payload := BytesReader payload,
                                        Code := baseProtocolLength E\<rparr>, None), q'')))
             else ((msg\<lparr>Code := baseProtocolLength E\<rparr>, None), q'))"

section \<open>Writing a frame\<close>

text \<open>
  \<^verbatim>\<open>writeQKCMsg\<close>, lines 175 to 205. The body goes through a
  \<^verbatim>\<open>cipher.StreamWriter\<close> over \<^verbatim>\<open>io.MultiWriter(conn, egressMAC)\<close>: the cipher text is
  written to the connection first and to the accumulator only when that write was
  complete. After \<^verbatim>\<open>ioutil.ReadAll\<close> the payload reader is exhausted, so the
  \<^verbatim>\<open>io.Copy\<close> of line 196 moves no byte.
\<close>

definition writeQKCFrame :: "env \<Rightarrow> rlpxFrameRW \<Rightarrow> Msg \<Rightarrow> (error option \<times> rlpxFrameRW) go" where
  "writeQKCFrame E q msg =
     (let headBuf = PutUint32 (Size msg) @ replicate 28 0;
          (h16, enc1) = XORKeyStream (enc q) (take 16 headBuf);
          headBuf = h16 @ drop 16 headBuf;
          (hmac, eg1) = updateMAC E (egressMAC q) (macCipher q) (take 16 headBuf);
          headBuf = take 16 headBuf @ copy_bytes (drop 16 headBuf) hmac;
          (err1, c1) = conn_Write (conn q) headBuf;
          q1 = q\<lparr>enc := enc1, egressMAC := eg1, conn := c1\<rparr>
      in case err1 of
           Some e \<Rightarrow> Ret (Some e, q1)
         | None \<Rightarrow>
             (case ReadAll (Payload msg) of
                Panic \<Rightarrow> Panic
              | Ret (realBody, Some e) \<Rightarrow> Ret (Some e, q1)
              | Ret (realBody, None) \<Rightarrow>
                  let (ct, enc2) = XORKeyStream (enc q1) realBody;
                      (err2, c2) = conn_Write (conn q1) ct;
                      q2 = q1\<lparr>enc := enc2, conn := c2\<rparr>
                  in (case err2 of
                        Some e \<Rightarrow> Ret (Some e, q2)
                      | None \<Rightarrow>
                          let eg2 = macWrite E (egressMAC q2) ct;
                              fMacSeed = macSum E eg2;
                              (fmac, eg3) = updateMAC E eg2 (macCipher q2) fMacSeed;
                              (err3, c3) = conn_Write (conn q2) fmac
                          in Ret (err3, q2\<lparr>egressMAC := eg3, conn := c3\<rparr>))))"

text \<open>
  \<^verbatim>\<open>writeQKCMsg\<close>: lines 164 to 174, then the lines above. The error of
  \<^verbatim>\<open>ioutil.ReadAll\<close> on line 169 is dropped by the source.
\<close>

definition writeQKCMsg :: "env \<Rightarrow> rlpxFrameRW \<Rightarrow> Msg \<Rightarrow> (error option \<times> rlpxFrameRW) go" where
  "writeQKCMsg E q msg =
     (if snappy q then
        if Size msg > maxUint24 then Ret (Some ErrPlainMessageTooLarge, q)
        else
          (case ReadAll (Payload msg) of
             Panic \<Rightarrow> Panic
           | Ret (payload, _) \<Rightarrow>
               let payload = snappyEncode E payload
               in writeQKCFrame E q
                    (msg\<lparr>Payload := BytesReader payload, Size := of_nat (length payload)\<rparr>))
      else writeQKCFrame E q msg)"

section \<open>Application handshake\<close>

text \<open>
  \<^verbatim>\<open>ReadMsg\<close> and \<^verbatim>\<open>WriteMsg\<close> take the lock of their direction, set the deadline
  and call \<^verbatim>\<open>readQKCMsg\<close> and \<^verbatim>\<open>writeQKCMsg\<close>.
\<close>

definition ReadMsg :: "env \<Rightarrow> rlpxFrameRW \<Rightarrow> (Msg \<times> error option) \<times> rlpxFrameRW" where
  "ReadMsg E q = readQKCMsg E q"

definition WriteMsg :: "env \<Rightarrow> rlpxFrameRW \<Rightarrow> Msg \<Rightarrow> (error option \<times> rlpxFrameRW) go" where
  "WriteMsg E q msg = writeQKCMsg E q msg"

text \<open>
  \<^verbatim>\<open>doProtoHandshake\<close>. The error of \<^verbatim>\<open>makeMsg\<close> is overwritten by line 227, and the
  error of \<^verbatim>\<open>q.ReadMsg()\<close> on line 232 is overwritten by line 233 before anything
  reads it.
\<close>

definition doProtoHandshake ::
  "env \<Rightarrow> rlpxFrameRW \<Rightarrow> protoHandshake \<Rightarrow>
     ((protoHandshake option \<times> error option) \<times> rlpxFrameRW) go" where
  "doProtoHandshake E q our =
     (case rlpxDoProtoHandshake E q our of
        ((perHandshake, Some e), q1) \<Rightarrow> Ret ((None, Some e), q1)
      | ((perHandshake, None), q1) \<Rightarrow>
          let (hello, _) = makeMsgHello E our
          in (case WriteMsg E q1 hello of
                Panic \<Rightarrow> Panic
              | Ret (Some e, q2) \<Rightarrow> Ret ((None, Some e), q2)
              | Ret (None, q2) \<Rightarrow>
                  let ((msg, _), q3) = ReadMsg E q2
                  in (case ReadAll (Payload msg) of
                        Panic \<Rightarrow> Panic
                      | Ret (qkcBody, Some e) \<Rightarrow> Ret ((None, Some e), q3)
                      | Ret (qkcBody, None) \<Rightarrow>
                          (case DecodeQKCMsg E qkcBody of
                             Inl e \<Rightarrow> Ret ((None, Some e), q3)
                           | Inr qkcMsg \<Rightarrow> Ret ((perHandshake, None), q3)))))"

section \<open>Dispatch loop\<close>

text \<open>
  A handler is known by the number that the table holds for it; calling it is an event:
  a fire-and-forget handler is called with the opcode and the data, an RPC handler with
  the data.
\<close>

datatype call = NonRPCCall nat nat bytes | RPCCall nat bytes

datatype step = Stop "error option" | Continue "call list" | StepPanic

text \<open>
  One turn of the loop of \<^verbatim>\<open>qkcMsgHandle\<close>, on what \<^verbatim>\<open>ws.ReadMsg()\<close> returned.
  On line 52 the variable \<^verbatim>\<open>err\<close> is the one that line 44 found to be nil.
\<close>

definition qkcMsgHandle_step :: "env \<Rightarrow> Msg \<times> error option \<Rightarrow> step" where
  "qkcMsgHandle_step E r =
     (case r of
        (msg, Some e) \<Rightarrow> Stop (Some e)
      | (msg, None) \<Rightarrow>
          (case ReadAll (Payload msg) of
             Panic \<Rightarrow> StepPanic
           | Ret (qkcBody, Some e) \<Rightarrow> Stop (Some e)
           | Ret (qkcBody, None) \<Rightarrow>
               (case DecodeQKCMsg E qkcBody of
                  Inl e \<Rightarrow> Stop (Some e)
                | Inr qkcMsg \<Rightarrow>
                    let err = None
                    in (case OPSerializerMap E (op qkcMsg) of
                          None \<Rightarrow> Stop err
                        | Some _ \<Rightarrow>
                            (case OPNonRPCMap E (op qkcMsg) of
                               Some HandleFunc \<Rightarrow>
                                 Continue [NonRPCCall HandleFunc (op qkcMsg) (data qkcMsg)]
                             | None \<Rightarrow>
                                 (case OpRPCMap E (op qkcMsg) of
                                    Some HandleFunc \<Rightarrow>
                                      Continue [RPCCall HandleFunc (data qkcMsg)]
                                  | None \<Rightarrow> Continue []))))))"

text \<open>
  The loop. \<open>ws i\<close> is what the \<open>i\<close>-th call of \<^verbatim>\<open>ws.ReadMsg()\<close> returns; the calls
  made so far are accumulated. The result is \<open>None\<close> when the loop never returns.
\<close>

partial_function (option) qkcMsgHandle_loop ::
  "env \<Rightarrow> (nat \<Rightarrow> Msg \<times> error option) \<Rightarrow> nat \<Rightarrow> call list \<Rightarrow> (error option \<times> call list) go option"
  where
  "qkcMsgHandle_loop E ws i calls =
     (case qkcMsgHandle_step E (ws i) of
        Stop e \<Rightarrow> Some (Ret (e, calls))
      | StepPanic \<Rightarrow> Some Panic
      | Continue cs \<Rightarrow> qkcMsgHandle_loop E ws (Suc i) (calls @ cs))"

definition qkcMsgHandle ::
  "env \<Rightarrow> (nat \<Rightarrow> Msg \<times> error option) \<Rightarrow> (error option \<times> call list) go option" where
  "qkcMsgHandle E ws = qkcMsgHandle_loop E ws 0 []"

text \<open>
  The first \<open>n\<close> turns of the same loop, started at message \<open>i\<close>: the calls made
  so far, and how the loop ended when it ended within these turns (\<open>None\<close>: it is still
  running).
\<close>

fun qkcMsgHandle_turns ::
  "env \<Rightarrow> (nat \<Rightarrow> Msg \<times> error option) \<Rightarrow> nat \<Rightarrow> nat \<Rightarrow> call list \<Rightarrow>
     call list \<times> (error option) go option" where
  "qkcMsgHandle_turns E ws 0 i calls = (calls, None)"
| "qkcMsgHandle_turns E ws (Suc n) i calls =
     (case qkcMsgHandle_step E (ws i) of
        Stop e \<Rightarrow> (calls, Some (Ret e))
      | StepPanic \<Rightarrow> (calls, Some Panic)
      | Continue cs \<Rightarrow> qkcMsgHandle_turns E ws n (Suc i) (calls @ cs))"

section \<open>Slave configuration\<close>

text \<open>
  \<^verbatim>\<open>SlaveConfig\<close>; \<^verbatim>\<open>types.ChainMask\<close> is declared elsewhere and is a type parameter,
  with \<^verbatim>\<open>GetMask\<close> and \<^verbatim>\<open>NewChainMask\<close> as function parameters. \<open>jsonConfig\<close> is the
  anonymous struct that both methods hand to \<^verbatim>\<open>encoding/json\<close>, with the fields that
  carry a JSON name. \<^verbatim>\<open>json.Marshal\<close>, \<^verbatim>\<open>json.Unmarshal\<close> and the constant
  \<^verbatim>\<open>DefaultWSPort\<close> are parameters too; \<open>'doc\<close> is the type of the JSON documents
  that the two library functions write and read.
\<close>

record 'cm SlaveConfig =
  IP :: string
  Port :: "16 word"
  ID :: string
  WSPort :: "16 word"
  ChainMaskList :: "'cm list"

record jsonConfig =
  HOST :: string
  PORT :: "16 word"
  JSON_ID :: string
  WEBSOCKET_JSON_RPC_PORT :: "16 word"
  CHAIN_MASK_LIST :: "uint32 list"

definition MarshalJSON ::
  "(jsonConfig \<Rightarrow> error + 'doc) \<Rightarrow> ('cm \<Rightarrow> uint32) \<Rightarrow> 'cm SlaveConfig \<Rightarrow> error + 'doc" where
  "MarshalJSON jsonMarshal GetMask s =
     (let shardMaskList = map GetMask (ChainMaskList s);
          jsonConfig = \<lparr>HOST = IP s, PORT = Port s, JSON_ID = ID s,
                        WEBSOCKET_JSON_RPC_PORT = WSPort s, CHAIN_MASK_LIST = shardMaskList\<rparr>
      in jsonMarshal jsonConfig)"

definition UnmarshalJSON ::
  "('doc \<Rightarrow> error + jsonConfig) \<Rightarrow> (uint32 \<Rightarrow> 'cm) \<Rightarrow> 16 word \<Rightarrow> 'cm SlaveConfig \<Rightarrow> 'doc \<Rightarrow>
     error option \<times> 'cm SlaveConfig" where
  "UnmarshalJSON jsonUnmarshal NewChainMask DefaultWSPort s input =
     (case jsonUnmarshal input of
        Inl err \<Rightarrow> (Some err, s)
      | Inr jsonConfig \<Rightarrow>
          let s = \<lparr>IP = HOST jsonConfig, Port = PORT jsonConfig, ID = JSON_ID jsonConfig,
                   WSPort = WEBSOCKET_JSON_RPC_PORT jsonConfig, ChainMaskList = []\<rparr>;
              s = s\<lparr>WSPort := DefaultWSPort\<rparr>;
              s = s\<lparr>ChainMaskList := map NewChainMask (CHAIN_MASK_LIST jsonConfig)\<rparr>
          in (None, s))"

section \<open>The JSON library on this struct\<close>

text \<open>
  \<^verbatim>\<open>encoding/json\<close> at the anonymous struct of the two methods, on JSON values: a JSON
  text is represented by the value that it denotes. A number is \<open>JUint n\<close> when its
  literal is a plain unsigned decimal integer, the only literals that the decoder
  accepts for an unsigned field, and \<open>JOtherNumber\<close> when the literal has a sign, a
  fraction or an exponent. A string is the Go string that the decoder gets out of the
  quoted text; the members of an object keep their order.
\<close>

datatype json =
    JNull
  | JBool bool
  | JUint nat
  | JOtherNumber
  | JString string
  | JArray "json list"
  | JObject "(string \<times> json) list"

text \<open>
  UTF-8 as \<^verbatim>\<open>unicode/utf8\<close> decodes it: the number of bytes of the well-formed
  encoding of a code point at the head of the bytes, 0 when there is none (the first
  byte selects the length and the range of the second byte; the other bytes are
  continuation bytes).
\<close>

definition cont :: "nat \<Rightarrow> bool" where
  "cont b = (0x80 \<le> b \<and> b \<le> 0xBF)"

fun utf8_size :: "nat list \<Rightarrow> nat" where
  "utf8_size [] = 0"
| "utf8_size (b0 # bs) =
     (if b0 < 0x80 then 1
      else if 0xC2 \<le> b0 \<and> b0 \<le> 0xDF then
        (case bs of b1 # _ \<Rightarrow> if cont b1 then 2 else 0 | _ \<Rightarrow> 0)
      else if 0xE0 \<le> b0 \<and> b0 \<le> 0xEF then
        (case bs of
           b1 # b2 # _ \<Rightarrow>
             if (if b0 = 0xE0 then 0xA0 else 0x80) \<le> b1 \<and>
                b1 \<le> (if b0 = 0xED then 0x9F else 0xBF) \<and> cont b2
             then 3 else 0
         | _ \<Rightarrow> 0)
      else if 0xF0 \<le> b0 \<and> b0 \<le> 0xF4 then
        (case bs of
           b1 # b2 # b3 # _ \<Rightarrow>
             if (if b0 = 0xF0 then 0x90 else 0x80) \<le> b1 \<and>
                b1 \<le> (if b0 = 0xF4 then 0x8F else 0xBF) \<and> cont b2 \<and> cont b3
             then 4 else 0
         | _ \<Rightarrow> 0)
      else 0)"

text \<open>\<^verbatim>\<open>utf8.ValidString\<close>: the string is a sequence of well-formed encodings.\<close>

function ValidString :: "string \<Rightarrow> bool" where
  "ValidString [] = True"
| "ValidString (c # cs) =
     (let n = utf8_size (map of_char (c # cs))
      in if n = 0 then False else ValidString (drop n (c # cs)))"
  by pat_completeness auto
termination
  by (relation "measure length") auto

text \<open>
  The Go string that comes back from the text that the encoder writes for a Go string:
  the encoder writes every byte that starts no well-formed encoding as the escape of
  U+FFFD, which the decoder reads as the three bytes \<open>EF BF BD\<close>; everything else comes
  back as it was.
\<close>

function encoded_string :: "string \<Rightarrow> string" where
  "encoded_string [] = []"
| "encoded_string (c # cs) =
     (let n = utf8_size (map of_char (c # cs))
      in if n = 0 then [CHR 0xEF, CHR 0xBF, CHR 0xBD] @ encoded_string cs
         else take n (c # cs) @ encoded_string (drop n (c # cs)))"
  by pat_completeness auto
termination
  by (relation "measure length") auto

text \<open>
  \<^verbatim>\<open>json.Marshal\<close> of the struct: the fields of the embedded struct in their order,
  then the mask list; the field tagged \<^verbatim>\<open>json:"-"\<close> is left out. It has no error case
  on this struct.
\<close>

definition json_Marshal :: "jsonConfig \<Rightarrow> error + json" where
  "json_Marshal jc =
     Inr (JObject
       [(''HOST'', JString (encoded_string (HOST jc))),
        (''PORT'', JUint (unat (PORT jc))),
        (''ID'', JString (encoded_string (JSON_ID jc))),
        (''WEBSOCKET_JSON_RPC_PORT'', JUint (unat (WEBSOCKET_JSON_RPC_PORT jc))),
        (''CHAIN_MASK_LIST'', JArray (map (\<lambda>m. JUint (unat m)) (CHAIN_MASK_LIST jc)))])"

text \<open>
  The key of a member selects the field whose JSON name it equals, or equals when case
  is ignored. \<open>foldName\<close> is the folding of the decoder as far as it can reach a name of
  this struct: ASCII letters go to upper case, and U+017F and U+212A (bytes \<open>C5 BF\<close> and
  \<open>E2 84 AA\<close>) go to \<open>S\<close> and \<open>K\<close>; the other code points fold among themselves and are
  left as they are.
\<close>

definition toUpper :: "char \<Rightarrow> char" where
  "toUpper c =
     (case map_of (zip ''abcdefghijklmnopqrstuvwxyz'' ''ABCDEFGHIJKLMNOPQRSTUVWXYZ'') c of
        Some u \<Rightarrow> u
      | None \<Rightarrow> c)"

fun foldName :: "string \<Rightarrow> string" where
  "foldName [] = []"
| "foldName (c # cs) =
     (if c = CHR 0xC5 \<and> take 1 cs = [CHR 0xBF] then CHR ''S'' # foldName (drop 1 cs)
      else if c = CHR 0xE2 \<and> take 2 cs = [CHR 0x84, CHR 0xAA] then CHR ''K'' # foldName (drop 2 cs)
      else toUpper c # foldName cs)"

definition json_type_error :: error where
  "json_type_error = ErrExternal ''json: cannot unmarshal''"

text \<open>
  Decoding a value into a field that holds \<open>cur\<close>: \<^verbatim>\<open>null\<close> leaves a string or a number
  as it is and empties a slice; a number must fit the field; a value of another kind is
  a type error. The decoder goes on after a type error and returns the first one at the
  end; here the first one ends the decoding, since \<^verbatim>\<open>UnmarshalJSON\<close> drops the struct
  when there is an error.
\<close>

fun decode_string :: "json \<Rightarrow> string \<Rightarrow> error + string" where
  "decode_string (JString s) cur = Inr s"
| "decode_string JNull cur = Inr cur"
| "decode_string _ cur = Inl json_type_error"

fun decode_uint :: "nat \<Rightarrow> json \<Rightarrow> nat \<Rightarrow> error + nat" where
  "decode_uint bits (JUint n) cur = (if n < 2 ^ bits then Inr n else Inl json_type_error)"
| "decode_uint bits JNull cur = Inr cur"
| "decode_uint bits _ cur = Inl json_type_error"

fun decode_uint32s :: "json list \<Rightarrow> error + uint32 list" where
  "decode_uint32s [] = Inr []"
| "decode_uint32s (v # vs) =
     (case decode_uint 32 v 0 of
        Inl e \<Rightarrow> Inl e
      | Inr n \<Rightarrow>
          (case decode_uint32s vs of
             Inl e \<Rightarrow> Inl e
           | Inr ns \<Rightarrow> Inr (of_nat n # ns)))"

definition decode_field :: "string \<Rightarrow> json \<Rightarrow> jsonConfig \<Rightarrow> error + jsonConfig" where
  "decode_field key v jc =
     (let name = foldName key
      in if name = ''HOST'' then
           (case decode_string v (HOST jc) of
              Inl e \<Rightarrow> Inl e
            | Inr s \<Rightarrow> Inr (jc\<lparr>HOST := s\<rparr>))
         else if name = ''PORT'' then
           (case decode_uint 16 v (unat (PORT jc)) of
              Inl e \<Rightarrow> Inl e
            | Inr n \<Rightarrow> Inr (jc\<lparr>PORT := of_nat n\<rparr>))
         else if name = ''ID'' then
           (case decode_string v (JSON_ID jc) of
              Inl e \<Rightarrow> Inl e
            | Inr s \<Rightarrow> Inr (jc\<lparr>JSON_ID := s\<rparr>))
         else if name = ''WEBSOCKET_JSON_RPC_PORT'' then
           (case decode_uint 16 v (unat (WEBSOCKET_JSON_RPC_PORT jc)) of
              Inl e \<Rightarrow> Inl e
            | Inr n \<Rightarrow> Inr (jc\<lparr>WEBSOCKET_JSON_RPC_PORT := of_nat n\<rparr>))
         else if name = ''CHAIN_MASK_LIST'' then
           (case v of
              JArray vs \<Rightarrow>
                (case decode_uint32s vs of
                   Inl e \<Rightarrow> Inl e
                 | Inr ms \<Rightarrow> Inr (jc\<lparr>CHAIN_MASK_LIST := ms\<rparr>))
            | JNull \<Rightarrow> Inr (jc\<lparr>CHAIN_MASK_LIST := []\<rparr>)
            | _ \<Rightarrow> Inl json_type_error)
         else Inr jc)"

fun decode_members :: "(string \<times> json) list \<Rightarrow> jsonConfig \<Rightarrow> error + jsonConfig" where
  "decode_members [] jc = Inr jc"
| "decode_members ((key, v) # ms) jc =
     (case decode_field key v jc of
        Inl e \<Rightarrow> Inl e
      | Inr jc' \<Rightarrow> decode_members ms jc')"

text \<open>
  \<^verbatim>\<open>json.Unmarshal\<close> into the zero struct: \<^verbatim>\<open>null\<close> leaves it as it is, an object is
  decoded member by member (a later member with the same key overwrites an earlier one,
  an unknown key is skipped), any other value is a type error.
\<close>

definition json_Unmarshal :: "json \<Rightarrow> error + jsonConfig" where
  "json_Unmarshal doc =
     (let zero = \<lparr>HOST = [], PORT = 0, JSON_ID = [], WEBSOCKET_JSON_RPC_PORT = 0,
                  CHAIN_MASK_LIST = []\<rparr>
      in case doc of
           JNull \<Rightarrow> Inr zero
         | JObject ms \<Rightarrow> decode_members ms zero
         | _ \<Rightarrow> Inl json_type_error)"

section \<open>Vocabulary of the statements\<close>

text \<open>
  \<open>macLen16\<close>: every MAC that \<^verbatim>\<open>updateMAC\<close> returns has 16 bytes. \<open>can_write c n\<close>:
  the connection takes \<open>n\<close> more bytes. \<open>sent q q'\<close>: the bytes written between the
  states \<open>q\<close> and \<open>q'\<close>. \<open>receive r bs\<close>: the reading side with \<open>bs\<close> as the bytes
  that arrive. \<open>matching r q\<close>: the reading side \<open>r\<close> holds the cipher and MAC state
  that the writing side \<open>q\<close> writes with.
\<close>

definition macLen16 :: "env \<Rightarrow> bool" where
  "macLen16 E = (\<forall>m k s. length (fst (updateMAC E m k s)) = 16)"

definition can_write :: "netconn \<Rightarrow> nat \<Rightarrow> bool" where
  "can_write c n = (case wcap c of None \<Rightarrow> True | Some k \<Rightarrow> n \<le> k)"

definition sent :: "rlpxFrameRW \<Rightarrow> rlpxFrameRW \<Rightarrow> bytes" where
  "sent q q' = drop (length (wr (conn q))) (wr (conn q'))"

definition receive :: "rlpxFrameRW \<Rightarrow> bytes \<Rightarrow> rlpxFrameRW" where
  "receive r bs = r\<lparr>conn := (conn r)\<lparr>rd := bs\<rparr>\<rparr>"

definition matching :: "rlpxFrameRW \<Rightarrow> rlpxFrameRW \<Rightarrow> bool" where
  "matching r q =
     (dec r = enc q \<and> ingressMAC r = egressMAC q \<and> macCipher r = macCipher q \<and>
      snappy r = snappy q)"

text \<open>The body that goes on the wire for a payload: compressed when snappy is on.\<close>

definition wire_body :: "env \<Rightarrow> rlpxFrameRW \<Rightarrow> bytes \<Rightarrow> bytes" where
  "wire_body E q p = (if snappy q then snappyEncode E p else p)"

text \<open>
  The message that \<^verbatim>\<open>writeQKCMsg\<close> frames for a message with the payload \<open>p\<close>:
  lines 169 to 173 when snappy is on, the message itself when it is off.
\<close>

definition wire_msg :: "env \<Rightarrow> rlpxFrameRW \<Rightarrow> Msg \<Rightarrow> bytes \<Rightarrow> Msg" where
  "wire_msg E q msg p =
     (if snappy q
      then msg\<lparr>Payload := BytesReader (snappyEncode E p),
               Size := of_nat (length (snappyEncode E p))\<rparr>
      else msg)"

text \<open>The bytes that \<^verbatim>\<open>ioutil.ReadAll\<close> gets out of a reader; none out of a nil reader.\<close>

definition read_bytes :: "reader \<Rightarrow> bytes" where
  "read_bytes r = (case ReadAll r of Ret (b, _) \<Rightarrow> b | Panic \<Rightarrow> [])"

text \<open>The plain text of the 16-byte header block at the start of the bytes \<open>bs\<close>.\<close>

definition plain_header :: "stream \<Rightarrow> bytes \<Rightarrow> bytes" where
  "plain_header s bs = fst (XORKeyStream s (take 16 bs))"

text \<open>Bit \<open>k\<close> of a byte string, counted from the first byte, flipped.\<close>

definition flipBitAt :: "nat \<Rightarrow> bytes \<Rightarrow> bytes" where
  "flipBitAt k bs = bs[k div 8 := flip_bit (k mod 8) (bs ! (k div 8))]"

section \<open>A small environment to run the definitions on\<close>

definition ex_updateMAC :: "mac \<Rightarrow> bytes \<Rightarrow> bytes \<Rightarrow> bytes \<times> mac" where
  "ex_updateMAC m k s = (take 16 (s @ m @ replicate 16 0), m @ s)"

definition ex_snappyEncode :: "bytes \<Rightarrow> bytes" where
  "ex_snappyEncode p = of_nat (length p) # p"

definition ex_snappyDecodedLen :: "bytes \<Rightarrow> error + nat" where
  "ex_snappyDecodedLen bs =
     (case bs of
        [] \<Rightarrow> Inl (ErrExternal ''snappy: corrupt input'')
      | b # _ \<Rightarrow> if b = 255 then Inr (2 ^ 24) else Inr (unat b))"

definition ex_snappyDecode :: "bytes \<Rightarrow> error + bytes" where
  "ex_snappyDecode bs =
     (case bs of
        [] \<Rightarrow> Inl (ErrExternal ''snappy: corrupt input'')
      | b # r \<Rightarrow> if unat b = length r then Inr r else Inl (ErrExternal ''snappy: corrupt input''))"

definition ex_DecodeQKCMsg :: "bytes \<Rightarrow> error + QKCMsg" where
  "ex_DecodeQKCMsg body =
     (case body of
        [] \<Rightarrow> Inl (ErrExternal ''decode qkc msg'')
      | b # r \<Rightarrow> Inr \<lparr>metaData = [], op = unat b, rpcID = 0, data = r\<rparr>)"

definition ex_hello :: Msg where
  "ex_hello = \<lparr>Code = 0, Size = 2, Payload = BytesReader [1, 24]\<rparr>"

definition ex_env :: env where
  "ex_env =
     \<lparr>updateMAC = ex_updateMAC,
      macWrite = (\<lambda>m b. m @ b),
      macSum = (\<lambda>m. take 16 (m @ replicate 16 1)),
      snappyEncode = ex_snappyEncode,
      snappyDecodedLen = ex_snappyDecodedLen,
      snappyDecode = ex_snappyDecode,
      baseProtocolLength = 16,
      DecodeQKCMsg = ex_DecodeQKCMsg,
      makeMsgHello = (\<lambda>our. (ex_hello, None)),
      rlpxDoProtoHandshake = (\<lambda>q our. ((Some our, None), q)),
      OPSerializerMap = [1 \<mapsto> ''HelloCmd'', 2 \<mapsto> ''GetPeerListRequest'', 4 \<mapsto> ''Tip''],
      OPNonRPCMap = [1 \<mapsto> 10, 3 \<mapsto> 30],
      OpRPCMap = [2 \<mapsto> 20]\<rparr>"

text \<open>
  A writing side and a reading side with the same key stream and accumulator; nothing
  has been written and nothing arrives.
\<close>

definition ex_rw :: "bool \<Rightarrow> rlpxFrameRW" where
  "ex_rw sn =
     \<lparr>conn = \<lparr>rd = [], wr = [], wcap = None\<rparr>,
      enc = (\<lambda>i. 0x5A), dec = (\<lambda>i. 0x5A), macCipher = [7], egressMAC = [], ingressMAC = [],
      snappy = sn, snappyDecodeCalls = 0\<rparr>"

text \<open>
  The frame that the writing side \<open>ex_rw False\<close> produces for the one-byte payload
  \<open>[255]\<close>: header block, header MAC, body, frame MAC.
\<close>

definition ex_msg1 :: Msg where
  "ex_msg1 = \<lparr>Code = 16, Size = 1, Payload = BytesReader [255]\<rparr>"

definition ex_block :: bytes where
  "ex_block = [90, 90, 90, 91, 90, 90, 90, 90, 90, 90, 90, 90, 90, 90, 90, 90]"

definition ex_frame1 :: bytes where
  "ex_frame1 = ex_block @ ex_block @ [165] @ ex_block"

text \<open>What a write left on the connection; nothing when it panicked.\<close>

definition written :: "(error option \<times> rlpxFrameRW) go \<Rightarrow> bytes" where
  "written res = (case res of Ret (_, q') \<Rightarrow> wr (conn q') | Panic \<Rightarrow> [])"

definition ex_our :: protoHandshake where
  "ex_our = \<lparr>hsVersion = 5, hsID = [1, 2, 3]\<rparr>"

text \<open>What \<^verbatim>\<open>ws.ReadMsg()\<close> returns: one message with the body \<open>body\<close>, then the end.\<close>

definition ex_ws :: "bytes \<Rightarrow> nat \<Rightarrow> Msg \<times> error option" where
  "ex_ws body i =
     (if i = 0 then (\<lparr>Code = 16, Size = of_nat (length body), Payload = BytesReader body\<rparr>, None)
      else (zeroMsg, Some ErrEOF))"

definition ex_jsonConfig :: jsonConfig where
  "ex_jsonConfig =
     \<lparr>HOST = ''127.0.0.1'', PORT = 38000, JSON_ID = ''S0'', WEBSOCKET_JSON_RPC_PORT = 38591,
      CHAIN_MASK_LIST = [4, 5]\<rparr>"

definition ex_jsonUnmarshal :: "bytes \<Rightarrow> error + jsonConfig" where
  "ex_jsonUnmarshal input =
     (if input = [123, 125] then Inr ex_jsonConfig
      else Inl (ErrExternal ''unexpected end of JSON input''))"

definition ex_slave :: "uint32 SlaveConfig" where
  "ex_slave =
     \<lparr>IP = ''127.0.0.1'', Port = 38000, ID = ''S0'', WSPort = 38591, ChainMaskList = [4, 5]\<rparr>"

text \<open>A configuration whose \<^verbatim>\<open>IP\<close> is the single byte \<open>FF\<close>, which is not UTF-8.\<close>

definition ex_slave_ff :: "uint32 SlaveConfig" where
  "ex_slave_ff =
     \<lparr>IP = [CHR 0xFF], Port = 38000, ID = ''S0'', WSPort = 38591, ChainMaskList = [4, 5]\<rparr>"

text \<open>The document that \<^verbatim>\<open>MarshalJSON\<close> writes for it.\<close>

definition ex_doc_ff :: json where
  "ex_doc_ff =
     JObject
       [(''HOST'', JString [CHR 0xEF, CHR 0xBF, CHR 0xBD]),
        (''PORT'', JUint 38000),
        (''ID'', JString ''S0''),
        (''WEBSOCKET_JSON_RPC_PORT'', JUint 38591),
        (''CHAIN_MASK_LIST'', JArray [JUint 4, JUint 5])]"

section \<open>Lemmas on the codec\<close>

lemma length_PutUint32 [simp]: "length (PutUint32 v) = 4"
  by (simp add: PutUint32_def)

lemma Uint32_PutUint32: "Uint32 (PutUint32 v) = v"
proof (rule bit_word_eqI)
  fix n assume n: "n < LENGTH(32)"
  have "n < 8 \<or> (8 \<le> n \<and> n < 16) \<or> (16 \<le> n \<and> n < 24) \<or> (24 \<le> n \<and> n < 32)"
    using n by auto
  then show "bit (Uint32 (PutUint32 v)) n = bit v n"
    unfolding Uint32_def PutUint32_def
    by (auto simp: bit_simps)
qed

lemma length_xor_bytes [simp]: "length (xor_bytes s bs) = length bs"
  by (induction bs arbitrary: s) auto

lemma xor_bytes_involution [simp]: "xor_bytes s (xor_bytes s bs) = bs"
  by (induction bs arbitrary: s) (auto simp: xor.assoc)

lemma xor_bytes_append:
  "xor_bytes s (as @ bs) = xor_bytes s as @ xor_bytes (\<lambda>i. s (i + length as)) bs"
  by (induction as arbitrary: s) auto

lemma take_xor_bytes: "take n (xor_bytes s bs) = xor_bytes s (take n bs)"
proof (induction bs arbitrary: s n)
  case Nil
  then show ?case by simp
next
  case (Cons b bs)
  then show ?case by (cases n) auto
qed

lemma conn_Write_ok:
  assumes "conn_Write c bs = (None, c')"
  shows "wr c' = wr c @ bs" and "rd c' = rd c"
  using assms by (auto simp: conn_Write_def split: option.splits if_splits)

lemma ReadFull_prefix:
  assumes "rd c = as @ rest" and "n = length as"
  shows "ReadFull c n = (Inr as, c\<lparr>rd := rest\<rparr>)"
  using assms by (simp add: ReadFull_def)

lemma length_copy_bytes [simp]: "length (copy_bytes dst src) = length dst"
  by (simp add: copy_bytes_def)

lemma copy_bytes_same_length: "length src = length dst \<Longrightarrow> copy_bytes dst src = src"
  by (simp add: copy_bytes_def)

lemma writeQKCFrame_okE:
  assumes "writeQKCFrame E q msg = Ret (None, q')"
    and "Payload msg = BytesReader body"
  obtains hm eg1 c1 c2 fm eg3 c3 where
    "updateMAC E (egressMAC q) (macCipher q)
       (xor_bytes (enc q) (PutUint32 (Size msg) @ replicate 12 0)) = (hm, eg1)"
    "conn_Write (conn q)
       (xor_bytes (enc q) (PutUint32 (Size msg) @ replicate 12 0) @ copy_bytes (replicate 16 0) hm)
       = (None, c1)"
    "conn_Write c1 (xor_bytes (\<lambda>i. enc q (i + 16)) body) = (None, c2)"
    "updateMAC E (macWrite E eg1 (xor_bytes (\<lambda>i. enc q (i + 16)) body)) (macCipher q)
       (macSum E (macWrite E eg1 (xor_bytes (\<lambda>i. enc q (i + 16)) body))) = (fm, eg3)"
    "conn_Write c2 fm = (None, c3)"
    "q' = q\<lparr>enc := (\<lambda>i. enc q (i + length body + 16)), egressMAC := eg3, conn := c3\<rparr>"
  using assms
  by (auto simp: writeQKCFrame_def Let_def XORKeyStream_def
      split: prod.splits option.splits)

lemma readQKCFrame_eval:
  assumes rd: "rd (conn r) = H @ M @ CT @ T @ rest"
    and len: "length H = 16" "length M = 16" "length T = 16"
    and um1: "updateMAC E (ingressMAC r) (macCipher r) H = (hm, in1)"
    and sz: "unat (Uint32 (take 4 (xor_bytes (dec r) H))) = length CT"
    and um2: "updateMAC E (macWrite E in1 CT) (macCipher r) (macSum E (macWrite E in1 CT)) = (fm, in3)"
  shows "fst (readQKCFrame E r) =
     (if hm \<noteq> M then Inl ErrBadHeaderMAC
      else if fm \<noteq> T then Inl ErrBadFrameMAC
      else Inr (xor_bytes (\<lambda>i. dec r (i + 16)) CT))"
proof -
  have r1: "ReadFull (conn r) 32 = (Inr (H @ M), (conn r)\<lparr>rd := CT @ T @ rest\<rparr>)"
    using rd len by (intro ReadFull_prefix) auto
  have r2: "ReadFull ((conn r)\<lparr>rd := CT @ T @ rest\<rparr>) (length CT) = (Inr CT, (conn r)\<lparr>rd := T @ rest\<rparr>)"
    using ReadFull_prefix[of "(conn r)\<lparr>rd := CT @ T @ rest\<rparr>" CT "T @ rest" "length CT"] by simp
  have r3: "ReadFull ((conn r)\<lparr>rd := T @ rest\<rparr>) 16 = (Inr T, (conn r)\<lparr>rd := rest\<rparr>)"
    using ReadFull_prefix[of "(conn r)\<lparr>rd := T @ rest\<rparr>" T rest 16] len by simp
  show ?thesis
    using len um1 sz um2
    by (simp add: readQKCFrame_def r1 r2 r3 Let_def XORKeyStream_def)
qed


lemma conn_Write_can:
  assumes "can_write c (length bs + n)"
  obtains c' where "conn_Write c bs = (None, c')" "wr c' = wr c @ bs" "can_write c' n"
  using assms by (auto simp: can_write_def conn_Write_def split: option.splits)

lemma writeQKCFrame_succeeds:
  assumes m16: "macLen16 E"
    and pay: "Payload msg = BytesReader body"
    and cap: "can_write (conn q) (48 + length body)"
  obtains q' where "writeQKCFrame E q msg = Ret (None, q')"
proof -
  let ?H = "xor_bytes (enc q) (PutUint32 (Size msg) @ replicate 12 0)"
  let ?CT = "xor_bytes (\<lambda>i. enc q (i + 16)) body"
  obtain hm eg1 where um1: "updateMAC E (egressMAC q) (macCipher q) ?H = (hm, eg1)"
    by (cases "updateMAC E (egressMAC q) (macCipher q) ?H") auto
  obtain fm eg3 where um2: "updateMAC E (macWrite E eg1 ?CT) (macCipher q)
       (macSum E (macWrite E eg1 ?CT)) = (fm, eg3)"
    by (cases "updateMAC E (macWrite E eg1 ?CT) (macCipher q) (macSum E (macWrite E eg1 ?CT))") auto
  have lfm: "length fm = 16"
    using m16 um2 by (metis fst_conv macLen16_def)
  have "can_write (conn q) (length (?H @ copy_bytes (replicate 16 0) hm) + (length body + 16))"
    using cap by (simp add: add.commute)
  then obtain c1 where c1: "conn_Write (conn q) (?H @ copy_bytes (replicate 16 0) hm) = (None, c1)"
    and cap1: "can_write c1 (length body + 16)"
    by (rule conn_Write_can)
  have "can_write c1 (length ?CT + 16)" using cap1 by simp
  then obtain c2 where c2: "conn_Write c1 ?CT = (None, c2)" and cap2: "can_write c2 16"
    by (rule conn_Write_can)
  have "can_write c2 (length fm + 0)" using cap2 lfm by simp
  then obtain c3 where c3: "conn_Write c2 fm = (None, c3)"
    by (rule conn_Write_can)
  have "writeQKCFrame E q msg =
      Ret (None, q\<lparr>enc := (\<lambda>i. enc q (i + length body + 16)), egressMAC := eg3, conn := c3\<rparr>)"
    using pay um1 um2 c1 c2 c3
    by (simp add: writeQKCFrame_def Let_def XORKeyStream_def)
  then show thesis by (rule that)
qed

lemma frame_roundtrip:
  assumes m16: "macLen16 E"
    and w: "writeQKCFrame E q msg = Ret (None, q')"
    and pay: "Payload msg = BytesReader body" "unat (Size msg) = length body"
    and match: "dec r = enc q" "ingressMAC r = egressMAC q" "macCipher r = macCipher q"
    and inp: "rd (conn r) = drop (length (wr (conn q))) (wr (conn q')) @ rest"
  shows "fst (readQKCFrame E r) = Inr body"
proof -
  let ?H = "xor_bytes (enc q) (PutUint32 (Size msg) @ replicate 12 0)"
  let ?CT = "xor_bytes (\<lambda>i. enc q (i + 16)) body"
  from w pay(1) obtain hm eg1 c1 c2 fm eg3 c3 where
    um1: "updateMAC E (egressMAC q) (macCipher q) ?H = (hm, eg1)" and
    c1: "conn_Write (conn q) (?H @ copy_bytes (replicate 16 0) hm) = (None, c1)" and
    c2: "conn_Write c1 ?CT = (None, c2)" and
    um2: "updateMAC E (macWrite E eg1 ?CT) (macCipher q) (macSum E (macWrite E eg1 ?CT)) = (fm, eg3)" and
    c3: "conn_Write c2 fm = (None, c3)" and
    q': "q' = q\<lparr>enc := (\<lambda>i. enc q (i + length body + 16)), egressMAC := eg3, conn := c3\<rparr>"
    by (rule writeQKCFrame_okE)
  have lhm: "length hm = 16" and lfm: "length fm = 16"
    using m16 um1 um2 by (metis fst_conv macLen16_def)+
  have wr': "wr (conn q') = wr (conn q) @ ?H @ hm @ ?CT @ fm"
    using conn_Write_ok(1)[OF c1] conn_Write_ok(1)[OF c2] conn_Write_ok(1)[OF c3] q' lhm
    by (simp add: copy_bytes_same_length)
  have rd: "rd (conn r) = ?H @ hm @ ?CT @ fm @ rest"
    using inp wr' by simp
  have sz: "unat (Uint32 (take 4 (xor_bytes (dec r) ?H))) = length ?CT"
    using pay(2) match(1) by (simp add: Uint32_PutUint32)
  have "fst (readQKCFrame E r) =
     (if hm \<noteq> hm then Inl ErrBadHeaderMAC
      else if fm \<noteq> fm then Inl ErrBadFrameMAC
      else Inr (xor_bytes (\<lambda>i. dec r (i + 16)) ?CT))"
    using um1 um2 lhm lfm match
    by (intro readQKCFrame_eval[OF rd _ _ _ _ sz]) auto
  then show ?thesis using match(1) by simp
qed

lemma readQKCFrame_keeps:
  "snappy (snd (readQKCFrame E r)) = snappy r"
  "snappyDecodeCalls (snd (readQKCFrame E r)) = snappyDecodeCalls r"
  by (simp_all add: readQKCFrame_def Let_def XORKeyStream_def split: prod.splits sum.splits)

lemma readQKCMsg_frame_error:
  "fst (readQKCFrame E r) = Inl e \<Longrightarrow> fst (readQKCMsg E r) = (zeroMsg, Some e)"
  by (cases "readQKCFrame E r") (simp add: readQKCMsg_def)

lemma macLen16_ex_env: "macLen16 ex_env"
  by (auto simp: macLen16_def ex_env_def ex_updateMAC_def)

section \<open>Frames\<close>

text \<open>The counter of \<^verbatim>\<open>snappy.Decode\<close> moves when the declared length is within the bound.\<close>

lemma readQKCMsg_decode_counted:
  assumes "fst (readQKCFrame E r) = Inr content" and "snappy r"
    and "snappyDecodedLen E content = Inr n" and "n \<le> unat maxUint24"
  shows "snappyDecodeCalls (snd (readQKCMsg E r)) = Suc (snappyDecodeCalls r)"
proof -
  obtain r' where f: "readQKCFrame E r = (Inr content, r')"
    using assms(1) by (cases "readQKCFrame E r") auto
  have "snappy r'" "snappyDecodeCalls r' = snappyDecodeCalls r"
    using readQKCFrame_keeps[of E r] f assms(2) by simp_all
  then show ?thesis
    using f assms(3,4) by (simp add: readQKCMsg_def Let_def split: sum.splits)
qed

text \<open>
  C6. With compression on, when the body of a received frame (one that passed both MAC
  checks) declares a decompressed length above the 24-bit bound, \<^verbatim>\<open>readQKCMsg\<close>
  returns the error "message too large", and \<^verbatim>\<open>snappy.Decode\<close> has not been called.
\<close>

theorem readQKCMsg_oversize_rejected:
  assumes "fst (readQKCFrame E r) = Inr content" and "snappy r"
    and "snappyDecodedLen E content = Inr n" and "unat maxUint24 < n"
  shows "snd (fst (readQKCMsg E r)) = Some ErrPlainMessageTooLarge \<and>
         snappyDecodeCalls (snd (readQKCMsg E r)) = snappyDecodeCalls r"
proof -
  obtain r' where f: "readQKCFrame E r = (Inr content, r')"
    using assms(1) by (cases "readQKCFrame E r") auto
  have "snappy r'" "snappyDecodeCalls r' = snappyDecodeCalls r"
    using readQKCFrame_keeps[of E r] f assms(2) by simp_all
  then show ?thesis
    using f assms(3,4) by (simp add: readQKCMsg_def Let_def)
qed

lemma ex_frame1_read:
  "fst (readQKCFrame ex_env (receive (ex_rw sn) ex_frame1)) = Inr [255]"
proof -
  have rd: "rd (conn (receive (ex_rw sn) ex_frame1)) = ex_block @ ex_block @ [165] @ ex_block @ []"
    by (simp add: receive_def ex_frame1_def)
  have l: "length ex_block = 16"
    by (simp add: ex_block_def)
  have um1: "updateMAC ex_env (ingressMAC (receive (ex_rw sn) ex_frame1))
      (macCipher (receive (ex_rw sn) ex_frame1)) ex_block = (ex_block, ex_block)"
    by (simp add: ex_env_def ex_updateMAC_def receive_def ex_rw_def l)
  have sz: "unat (Uint32 (take 4 (xor_bytes (dec (receive (ex_rw sn) ex_frame1)) ex_block)))
      = length [165 :: byte]"
    by (simp add: receive_def ex_rw_def ex_block_def Uint32_def)
  have um2: "updateMAC ex_env (macWrite ex_env ex_block [165])
      (macCipher (receive (ex_rw sn) ex_frame1))
      (macSum ex_env (macWrite ex_env ex_block [165])) = (ex_block, ex_block @ [165] @ ex_block)"
    by (simp add: ex_env_def ex_updateMAC_def l)
  show ?thesis
    using readQKCFrame_eval [OF rd l l l um1 sz um2]
    by (simp add: receive_def ex_rw_def)
qed

theorem readQKCMsg_oversize_rejected_witness:
  "snappyDecodedLen ex_env [255] = Inr (2 ^ 24) \<and>
   snd (fst (readQKCMsg ex_env (receive (ex_rw True) ex_frame1))) = Some ErrPlainMessageTooLarge \<and>
   snappyDecodeCalls (snd (readQKCMsg ex_env (receive (ex_rw True) ex_frame1))) = 0"
proof -
  have s: "snappy (receive (ex_rw True) ex_frame1)"
    by (simp add: receive_def ex_rw_def)
  have d: "snappyDecodedLen ex_env [255] = Inr (2 ^ 24)"
    by (simp add: ex_env_def ex_snappyDecodedLen_def)
  have b: "unat maxUint24 < 2 ^ 24"
    by (simp add: maxUint24_def)
  show ?thesis
    using readQKCMsg_oversize_rejected [OF ex_frame1_read s d b] d
    by (simp add: receive_def ex_rw_def)
qed


lemma receive_simps [simp]:
  "rd (conn (receive r bs)) = bs" "dec (receive r bs) = dec r"
  "ingressMAC (receive r bs) = ingressMAC r" "macCipher (receive r bs) = macCipher r"
  "snappy (receive r bs) = snappy r" "snappyDecodeCalls (receive r bs) = snappyDecodeCalls r"
  by (simp_all add: receive_def)

text \<open>What a successful write of a frame puts on the wire.\<close>

lemma writeQKCFrame_sent:
  assumes m16: "macLen16 E"
    and pay: "Payload msg = BytesReader body"
    and cap: "can_write (conn q) (48 + length body)"
  obtains q' hm eg1 fm eg3 where
    "writeQKCFrame E q msg = Ret (None, q')"
    "updateMAC E (egressMAC q) (macCipher q)
       (xor_bytes (enc q) (PutUint32 (Size msg) @ replicate 12 0)) = (hm, eg1)"
    "updateMAC E (macWrite E eg1 (xor_bytes (\<lambda>i. enc q (i + 16)) body)) (macCipher q)
       (macSum E (macWrite E eg1 (xor_bytes (\<lambda>i. enc q (i + 16)) body))) = (fm, eg3)"
    "length hm = 16" "length fm = 16"
    "sent q q' = xor_bytes (enc q) (PutUint32 (Size msg) @ replicate 12 0) @ hm @
                 xor_bytes (\<lambda>i. enc q (i + 16)) body @ fm"
proof -
  let ?H = "xor_bytes (enc q) (PutUint32 (Size msg) @ replicate 12 0)"
  let ?CT = "xor_bytes (\<lambda>i. enc q (i + 16)) body"
  from m16 pay cap obtain q' where w: "writeQKCFrame E q msg = Ret (None, q')"
    by (rule writeQKCFrame_succeeds)
  from w pay obtain hm eg1 c1 c2 fm eg3 c3 where
    um1: "updateMAC E (egressMAC q) (macCipher q) ?H = (hm, eg1)" and
    c1: "conn_Write (conn q) (?H @ copy_bytes (replicate 16 0) hm) = (None, c1)" and
    c2: "conn_Write c1 ?CT = (None, c2)" and
    um2: "updateMAC E (macWrite E eg1 ?CT) (macCipher q) (macSum E (macWrite E eg1 ?CT)) = (fm, eg3)" and
    c3: "conn_Write c2 fm = (None, c3)" and
    q': "q' = q\<lparr>enc := (\<lambda>i. enc q (i + length body + 16)), egressMAC := eg3, conn := c3\<rparr>"
    by (rule writeQKCFrame_okE)
  have lhm: "length hm = 16" and lfm: "length fm = 16"
    using m16 um1 um2 by (metis fst_conv macLen16_def)+
  have "wr (conn q') = wr (conn q) @ ?H @ hm @ ?CT @ fm"
    using conn_Write_ok(1)[OF c1] conn_Write_ok(1)[OF c2] conn_Write_ok(1)[OF c3] q' lhm
    by (simp add: copy_bytes_same_length)
  then have "sent q q' = ?H @ hm @ ?CT @ fm"
    by (simp add: sent_def)
  with w um1 um2 lhm lfm show thesis
    by (rule that)
qed

lemma writeQKCMsg_wire_msg:
  assumes "Payload msg = BytesReader p" and "snappy q \<longrightarrow> Size msg \<le> maxUint24"
  shows "writeQKCMsg E q msg = writeQKCFrame E q (wire_msg E q msg p)"
    and "Payload (wire_msg E q msg p) = BytesReader (wire_body E q p)"
  using assms by (auto simp: writeQKCMsg_def wire_msg_def wire_body_def Let_def)

lemma unat_of_nat32: "n < 2 ^ 32 \<Longrightarrow> unat (of_nat n :: uint32) = n"
  by (simp add: unat_of_nat)

lemma Size_wire_msg:
  assumes "\<not> snappy q \<longrightarrow> unat (Size msg) = length p"
    and "snappy q \<longrightarrow> length (snappyEncode E p) < 2 ^ 32"
  shows "unat (Size (wire_msg E q msg p)) = length (wire_body E q p)"
  using assms by (auto simp: wire_msg_def wire_body_def unat_of_nat32)

lemma plain_header_sent:
  "plain_header s (xor_bytes s (PutUint32 v @ replicate 12 0) @ rest) = PutUint32 v @ replicate 12 0"
  by (simp add: plain_header_def XORKeyStream_def)

text \<open>
  C1. A message whose \<^verbatim>\<open>Size\<close> is the length of its payload (at most the 24-bit
  bound when snappy is on) is written without error when the connection takes the
  frame, and the reading side that holds the matching cipher and MAC state reads from
  the bytes sent a message with exactly the payload bytes and the size of the original.
  Of snappy only this is assumed, for the payload at hand: decoding the encoded payload
  gives the payload, its declared length is the payload's, and the encoded payload is
  shorter than \<open>2 ^ 32\<close> bytes.
\<close>

theorem write_read_roundtrip:
  assumes m16: "macLen16 E"
    and pay: "Payload msg = BytesReader p" "unat (Size msg) = length p"
    and sn: "snappy q \<longrightarrow>
               length p \<le> unat maxUint24 \<and>
               snappyDecodedLen E (snappyEncode E p) = Inr (length p) \<and>
               snappyDecode E (snappyEncode E p) = Inr p \<and>
               length (snappyEncode E p) < 2 ^ 32"
    and cap: "can_write (conn q) (48 + length (wire_body E q p))"
    and match: "matching r q"
  shows "\<exists>q'. writeQKCMsg E q msg = Ret (None, q') \<and>
           snd (fst (readQKCMsg E (receive r (sent q q')))) = None \<and>
           Payload (fst (fst (readQKCMsg E (receive r (sent q q'))))) = BytesReader p \<and>
           Size (fst (fst (readQKCMsg E (receive r (sent q q'))))) = Size msg"
proof -
  let ?m = "wire_msg E q msg p"
  let ?b = "wire_body E q p"
  have le: "snappy q \<longrightarrow> Size msg \<le> maxUint24"
    using sn pay(2) by (auto simp: word_le_nat_alt)
  have wm: "writeQKCMsg E q msg = writeQKCFrame E q ?m" and pm: "Payload ?m = BytesReader ?b"
    using writeQKCMsg_wire_msg[OF pay(1) le] by simp_all
  have sz: "unat (Size ?m) = length ?b"
    using Size_wire_msg[of q msg p E] pay(2) sn by simp
  from m16 pm cap obtain q' where w: "writeQKCFrame E q ?m = Ret (None, q')"
    by (rule writeQKCFrame_succeeds)
  let ?r = "receive r (sent q q')"
  have "fst (readQKCFrame E ?r) = Inr ?b"
    using match by (intro frame_roundtrip[OF m16 w pm sz, where rest = "[]"])
      (simp_all add: matching_def sent_def)
  then obtain r' where f: "readQKCFrame E ?r = (Inr ?b, r')"
    by (cases "readQKCFrame E ?r") auto
  have s': "snappy r' = snappy q"
    using readQKCFrame_keeps(1)[of E ?r] f match by (simp add: matching_def)
  have "of_nat (unat (Size msg)) = Size msg"
    by simp
  then have sm: "of_nat (length p) = Size msg"
    using pay(2) by simp
  have "snd (fst (readQKCMsg E ?r)) = None \<and>
        Payload (fst (fst (readQKCMsg E ?r))) = BytesReader p \<and>
        Size (fst (fst (readQKCMsg E ?r))) = Size msg"
  proof (cases "snappy q")
    case True
    with sn have "snappyDecodedLen E (snappyEncode E p) = Inr (length p)"
      "snappyDecode E (snappyEncode E p) = Inr p" "length p \<le> unat maxUint24"
      by simp_all
    with True f s' sm show ?thesis
      by (simp add: readQKCMsg_def Let_def wire_body_def)
  next
    case False
    with f s' sm show ?thesis
      by (simp add: readQKCMsg_def Let_def wire_body_def)
  qed
  with w wm show ?thesis by auto
qed


theorem write_read_roundtrip_witness:
  "(\<exists>q'. writeQKCMsg ex_env (ex_rw True) ex_hello = Ret (None, q') \<and>
      snd (fst (readQKCMsg ex_env (receive (ex_rw True) (sent (ex_rw True) q')))) = None \<and>
      Payload (fst (fst (readQKCMsg ex_env (receive (ex_rw True) (sent (ex_rw True) q')))))
        = BytesReader [1, 24] \<and>
      Size (fst (fst (readQKCMsg ex_env (receive (ex_rw True) (sent (ex_rw True) q'))))) = 2) \<and>
   (\<exists>q'. writeQKCMsg ex_env (ex_rw False) ex_hello = Ret (None, q') \<and>
      snd (fst (readQKCMsg ex_env (receive (ex_rw False) (sent (ex_rw False) q')))) = None \<and>
      Payload (fst (fst (readQKCMsg ex_env (receive (ex_rw False) (sent (ex_rw False) q')))))
        = BytesReader [1, 24] \<and>
      Size (fst (fst (readQKCMsg ex_env (receive (ex_rw False) (sent (ex_rw False) q'))))) = 2)"
proof -
  have p: "Payload ex_hello = BytesReader [1, 24]" "unat (Size ex_hello) = length [1, 24 :: byte]"
    by (simp_all add: ex_hello_def)
  have sn: "\<And>b. snappy (ex_rw b) \<longrightarrow>
               length [1, 24 :: byte] \<le> unat maxUint24 \<and>
               snappyDecodedLen ex_env (snappyEncode ex_env [1, 24]) = Inr (length [1, 24 :: byte]) \<and>
               snappyDecode ex_env (snappyEncode ex_env [1, 24]) = Inr [1, 24] \<and>
               length (snappyEncode ex_env [1, 24]) < 2 ^ 32"
    by (simp add: ex_env_def ex_snappyEncode_def ex_snappyDecodedLen_def ex_snappyDecode_def
        maxUint24_def)
  have cap: "\<And>b. can_write (conn (ex_rw b)) (48 + length (wire_body ex_env (ex_rw b) [1, 24]))"
    by (simp add: can_write_def ex_rw_def)
  have m: "\<And>b. matching (ex_rw b) (ex_rw b)"
    by (simp add: matching_def ex_rw_def)
  show ?thesis
    using write_read_roundtrip [OF macLen16_ex_env p sn cap m, of True]
      write_read_roundtrip [OF macLen16_ex_env p sn cap m, of False]
    by (simp add: ex_hello_def)
qed

lemma writeQKCMsg_compressed:
  assumes "snappy q" and "Size msg \<le> maxUint24" and "ReadAll (Payload msg) = Ret (p, e)"
  shows "writeQKCMsg E q msg =
         writeQKCFrame E q (msg\<lparr>Payload := BytesReader (snappyEncode E p),
                                Size := of_nat (length (snappyEncode E p))\<rparr>)"
  using assms by (simp add: writeQKCMsg_def Let_def leD)

text \<open>
  C7. With compression on, a message whose \<^verbatim>\<open>Size\<close> is above the 24-bit bound is
  refused with the error "message too large" and the state is the one before the call:
  nothing was written, no cipher or MAC state moved. A message within the bound (whose
  payload reader is not nil) goes on the wire, when the connection takes the frame, with
  the length of the compressed payload in the header and the compressed payload as body.
\<close>

theorem writeQKCMsg_snappy_bound:
  assumes "snappy q"
  shows "(maxUint24 < Size msg \<longrightarrow> writeQKCMsg E q msg = Ret (Some ErrPlainMessageTooLarge, q)) \<and>
         (Size msg \<le> maxUint24 \<and> ReadAll (Payload msg) = Ret (p, e) \<and> macLen16 E \<and>
          can_write (conn q) (48 + length (snappyEncode E p)) \<longrightarrow>
            (\<exists>q'. writeQKCMsg E q msg = Ret (None, q') \<and>
               length (sent q q') = 48 + length (snappyEncode E p) \<and>
               Uint32 (take 4 (plain_header (enc q) (sent q q')))
                 = of_nat (length (snappyEncode E p)) \<and>
               fst (XORKeyStream (\<lambda>i. enc q (i + 16))
                      (take (length (snappyEncode E p)) (drop 32 (sent q q'))))
                 = snappyEncode E p))"
proof (intro conjI impI)
  assume "maxUint24 < Size msg"
  with assms show "writeQKCMsg E q msg = Ret (Some ErrPlainMessageTooLarge, q)"
    by (simp add: writeQKCMsg_def)
next
  let ?c = "snappyEncode E p"
  let ?m = "msg\<lparr>Payload := BytesReader ?c, Size := of_nat (length ?c)\<rparr>"
  assume a: "Size msg \<le> maxUint24 \<and> ReadAll (Payload msg) = Ret (p, e) \<and> macLen16 E \<and>
          can_write (conn q) (48 + length ?c)"
  then have wm: "writeQKCMsg E q msg = writeQKCFrame E q ?m"
    using assms by (simp add: writeQKCMsg_compressed)
  have pm: "Payload ?m = BytesReader ?c" by simp
  from a pm obtain q' hm fm where
    w: "writeQKCFrame E q ?m = Ret (None, q')" and
    l: "length hm = 16" "length fm = 16" and
    s: "sent q q' = xor_bytes (enc q) (PutUint32 (Size ?m) @ replicate 12 0) @ hm @
                 xor_bytes (\<lambda>i. enc q (i + 16)) ?c @ fm"
    by (elim conjE writeQKCFrame_sent[where msg = ?m and q = q and E = E and body = ?c]) auto
  have "length (sent q q') = 48 + length ?c"
    using s l by simp
  moreover have "Uint32 (take 4 (plain_header (enc q) (sent q q'))) = of_nat (length ?c)"
    unfolding s plain_header_sent by (simp add: Uint32_PutUint32)
  moreover have "fst (XORKeyStream (\<lambda>i. enc q (i + 16)) (take (length ?c) (drop 32 (sent q q')))) = ?c"
    using l by (simp add: s XORKeyStream_def)
  ultimately show "\<exists>q'. writeQKCMsg E q msg = Ret (None, q') \<and>
               length (sent q q') = 48 + length ?c \<and>
               Uint32 (take 4 (plain_header (enc q) (sent q q'))) = of_nat (length ?c) \<and>
               fst (XORKeyStream (\<lambda>i. enc q (i + 16)) (take (length ?c) (drop 32 (sent q q')))) = ?c"
    using w wm by auto
qed

theorem writeQKCMsg_snappy_bound_witness:
  "writeQKCMsg ex_env (ex_rw True) (ex_hello\<lparr>Size := 0x1000000\<rparr>)
     = Ret (Some ErrPlainMessageTooLarge, ex_rw True) \<and>
   (\<exists>q'. writeQKCMsg ex_env (ex_rw True) ex_hello = Ret (None, q') \<and>
      length (sent (ex_rw True) q') = 51 \<and>
      Uint32 (take 4 (plain_header (enc (ex_rw True)) (sent (ex_rw True) q'))) = 3 \<and>
      fst (XORKeyStream (\<lambda>i. enc (ex_rw True) (i + 16)) (take 3 (drop 32 (sent (ex_rw True) q'))))
        = [2, 1, 24])"
proof -
  have s: "snappy (ex_rw True)"
    by (simp add: ex_rw_def)
  have big: "maxUint24 < Size (ex_hello\<lparr>Size := 0x1000000\<rparr>)"
    by (simp add: maxUint24_def)
  have small: "Size ex_hello \<le> maxUint24 \<and> ReadAll (Payload ex_hello) = Ret ([1, 24], None) \<and>
      macLen16 ex_env \<and> can_write (conn (ex_rw True)) (48 + length (snappyEncode ex_env [1, 24]))"
    by (simp add: ex_hello_def maxUint24_def macLen16_ex_env can_write_def ex_rw_def)
  have c: "snappyEncode ex_env [1, 24] = [2, 1, 24]"
    by (simp add: ex_env_def ex_snappyEncode_def)
  show ?thesis
    using writeQKCMsg_snappy_bound [OF s, where msg = "ex_hello\<lparr>Size := 0x1000000\<rparr>"
        and E = ex_env and p = "[]" and e = None] big
      writeQKCMsg_snappy_bound [OF s, where msg = ex_hello and E = ex_env and p = "[1, 24]"
        and e = None] small
    by (simp add: c numeral_3_eq_3)
qed

lemma readQKCFrame_length:
  assumes "fst (readQKCFrame E r) = Inr content"
  shows "length content = unat (Uint32 (take 4 (plain_header (dec r) (rd (conn r)))))"
  using assms
  by (auto simp: readQKCFrame_def ReadFull_def Let_def XORKeyStream_def plain_header_def
      take_xor_bytes split: prod.splits sum.splits if_splits)

lemma replicate_12: "replicate 12 (0 :: byte) = [0, 0, 0, 0, 0, 0, 0, 0, 0, 0, 0, 0]"
  by (simp add: eval_nat_numeral)

lemma PutUint32_1: "PutUint32 1 = [0, 0, 0, 1]"
  by (simp add: PutUint32_def drop_bit_eq_div)

lemma writeQKCMsg_sent:
  assumes m16: "macLen16 E"
    and pay: "Payload msg = BytesReader p"
    and le: "snappy q \<longrightarrow> Size msg \<le> maxUint24"
    and cap: "can_write (conn q) (48 + length (wire_body E q p))"
  obtains q' hm eg1 fm eg3 where
    "writeQKCMsg E q msg = Ret (None, q')"
    "updateMAC E (egressMAC q) (macCipher q)
       (xor_bytes (enc q) (PutUint32 (Size (wire_msg E q msg p)) @ replicate 12 0)) = (hm, eg1)"
    "updateMAC E (macWrite E eg1 (xor_bytes (\<lambda>i. enc q (i + 16)) (wire_body E q p))) (macCipher q)
       (macSum E (macWrite E eg1 (xor_bytes (\<lambda>i. enc q (i + 16)) (wire_body E q p)))) = (fm, eg3)"
    "length hm = 16" "length fm = 16"
    "sent q q' = xor_bytes (enc q) (PutUint32 (Size (wire_msg E q msg p)) @ replicate 12 0) @ hm @
                 xor_bytes (\<lambda>i. enc q (i + 16)) (wire_body E q p) @ fm"
proof -
  have wm: "writeQKCMsg E q msg = writeQKCFrame E q (wire_msg E q msg p)"
    and pm: "Payload (wire_msg E q msg p) = BytesReader (wire_body E q p)"
    using writeQKCMsg_wire_msg[OF pay le] by simp_all
  show thesis
    using writeQKCFrame_sent[OF m16 pm cap] that wm by metis
qed

text \<open>
  C2, as stated, fails. The frame of the one-byte payload \<open>[255]\<close> has the plain header
  \<open>00 00 00 01\<close> and twelve zero bytes: its first three bytes read as a big-endian
  integer give 0, not the body length 1, the byte after them is not padding, and the
  reading side gets the one-byte body.
\<close>

theorem header_not_three_bytes:
  "written (writeQKCMsg ex_env (ex_rw False) ex_msg1) = ex_frame1 \<and>
   plain_header (enc (ex_rw False)) ex_frame1 = [0, 0, 0, 1, 0, 0, 0, 0, 0, 0, 0, 0, 0, 0, 0, 0] \<and>
   Uint24 (take 3 (plain_header (enc (ex_rw False)) ex_frame1)) = 0 \<and>
   fst (readQKCFrame ex_env (receive (ex_rw False) ex_frame1)) = Inr [255]"
proof -
  have p: "Payload ex_msg1 = BytesReader [255]"
    by (simp add: ex_msg1_def)
  have le: "snappy (ex_rw False) \<longrightarrow> Size ex_msg1 \<le> maxUint24"
    by (simp add: ex_rw_def)
  have cap: "can_write (conn (ex_rw False)) (48 + length (wire_body ex_env (ex_rw False) [255]))"
    by (simp add: can_write_def ex_rw_def)
  have b: "wire_body ex_env (ex_rw False) [255] = [255]"
    "Size (wire_msg ex_env (ex_rw False) ex_msg1 [255]) = 1"
    by (simp_all add: wire_body_def wire_msg_def ex_rw_def ex_msg1_def)
  have H: "xor_bytes (enc (ex_rw False)) (PutUint32 1 @ replicate 12 0) = ex_block"
    by (simp add: ex_rw_def PutUint32_1 replicate_12 ex_block_def)
  have CT: "xor_bytes (\<lambda>i. enc (ex_rw False) (i + 16)) [255] = [165]"
    by (simp add: ex_rw_def)
  from macLen16_ex_env p le cap obtain q' hm eg1 fm eg3 where
    w: "writeQKCMsg ex_env (ex_rw False) ex_msg1 = Ret (None, q')" and
    um1': "updateMAC ex_env (egressMAC (ex_rw False)) (macCipher (ex_rw False))
       (xor_bytes (enc (ex_rw False))
          (PutUint32 (Size (wire_msg ex_env (ex_rw False) ex_msg1 [255])) @ replicate 12 0))
       = (hm, eg1)" and
    um2': "updateMAC ex_env
       (macWrite ex_env eg1
          (xor_bytes (\<lambda>i. enc (ex_rw False) (i + 16)) (wire_body ex_env (ex_rw False) [255])))
       (macCipher (ex_rw False))
       (macSum ex_env (macWrite ex_env eg1
          (xor_bytes (\<lambda>i. enc (ex_rw False) (i + 16)) (wire_body ex_env (ex_rw False) [255]))))
       = (fm, eg3)" and
    s': "sent (ex_rw False) q' =
       xor_bytes (enc (ex_rw False))
          (PutUint32 (Size (wire_msg ex_env (ex_rw False) ex_msg1 [255])) @ replicate 12 0) @ hm @
       xor_bytes (\<lambda>i. enc (ex_rw False) (i + 16)) (wire_body ex_env (ex_rw False) [255]) @ fm"
    by (rule writeQKCMsg_sent)
  note um1 = um1' [unfolded b H]
  note um2 = um2' [unfolded b CT]
  note s = s' [unfolded b H CT]
  have l: "length ex_block = 16"
    by (simp add: ex_block_def)
  have hm: "hm = ex_block" and eg1: "eg1 = ex_block"
    using um1 by (simp_all add: ex_env_def ex_updateMAC_def ex_rw_def l)
  have fm: "fm = ex_block"
    using um2 by (simp add: ex_env_def ex_updateMAC_def eg1 l)
  have "wr (conn q') = ex_frame1"
    using s by (simp add: sent_def ex_rw_def hm fm ex_frame1_def)
  then have "written (writeQKCMsg ex_env (ex_rw False) ex_msg1) = ex_frame1"
    by (simp add: w written_def)
  moreover have ph: "plain_header (enc (ex_rw False)) ex_frame1
      = [0, 0, 0, 1, 0, 0, 0, 0, 0, 0, 0, 0, 0, 0, 0, 0]"
    by (simp add: plain_header_def XORKeyStream_def ex_frame1_def ex_block_def ex_rw_def)
  moreover have "Uint24 (take 3 (plain_header (enc (ex_rw False)) ex_frame1)) = 0"
    by (simp add: ph Uint24_def)
  ultimately show ?thesis
    using ex_frame1_read [of False] by simp
qed

lemma writeQKCFrame_ok_payload:
  assumes "writeQKCFrame E q msg = Ret (None, q')"
  obtains body where "Payload msg = BytesReader body"
proof (cases "Payload msg")
  case NilReader
  with assms show ?thesis
    by (simp add: writeQKCFrame_def Let_def split: prod.splits option.splits)
next
  case (BytesReader body)
  then show ?thesis by (rule that)
next
  case (ErrReader e)
  with assms show ?thesis
    by (simp add: writeQKCFrame_def Let_def split: prod.splits option.splits)
qed

text \<open>Whatever \<^verbatim>\<open>updateMAC\<close> returns: a frame written without error starts with the
  encrypted header block of the \<^verbatim>\<open>Size\<close> of the message.\<close>

lemma writeQKCFrame_header:
  assumes w: "writeQKCFrame E q msg = Ret (None, q')"
  shows "plain_header (enc q) (sent q q') = PutUint32 (Size msg) @ replicate 12 0"
    and "32 \<le> length (sent q q')"
proof -
  from w obtain body where pay: "Payload msg = BytesReader body"
    by (rule writeQKCFrame_ok_payload)
  let ?H = "xor_bytes (enc q) (PutUint32 (Size msg) @ replicate 12 0)"
  from w pay obtain hm c1 c2 fm c3 eg3 where
    c1: "conn_Write (conn q) (?H @ copy_bytes (replicate 16 0) hm) = (None, c1)" and
    c2: "conn_Write c1 (xor_bytes (\<lambda>i. enc q (i + 16)) body) = (None, c2)" and
    c3: "conn_Write c2 fm = (None, c3)" and
    q': "q' = q\<lparr>enc := (\<lambda>i. enc q (i + length body + 16)), egressMAC := eg3, conn := c3\<rparr>"
    by (rule writeQKCFrame_okE)
  have s: "sent q q' = ?H @ (copy_bytes (replicate 16 0) hm @
      xor_bytes (\<lambda>i. enc q (i + 16)) body @ fm)"
    using conn_Write_ok(1)[OF c1] conn_Write_ok(1)[OF c2] conn_Write_ok(1)[OF c3] q'
    by (simp add: sent_def)
  show "plain_header (enc q) (sent q q') = PutUint32 (Size msg) @ replicate 12 0"
    unfolding s by (rule plain_header_sent)
  show "32 \<le> length (sent q q')"
    unfolding s by simp
qed

lemma writeQKCMsg_ok_frame:
  assumes "writeQKCMsg E q msg = Ret (None, q')"
  shows "writeQKCFrame E q (wire_msg E q msg (read_bytes (Payload msg))) = Ret (None, q')"
proof (cases "snappy q")
  case False
  with assms show ?thesis
    by (simp add: writeQKCMsg_def wire_msg_def)
next
  case True
  show ?thesis
  proof (cases "ReadAll (Payload msg)")
    case Panic
    with assms True show ?thesis
      by (simp add: writeQKCMsg_def split: if_splits)
  next
    case (Ret pe)
    then obtain p e where "ReadAll (Payload msg) = Ret (p, e)"
      by (cases pe) auto
    with assms True show ?thesis
      by (simp add: writeQKCMsg_def wire_msg_def read_bytes_def Let_def split: if_splits)
  qed
qed

text \<open>
  C2, amended: the plain text of the 16-byte header block of every frame written without
  error is the length field of the message, as line 177 writes it, as a 4-byte
  big-endian integer followed by 12 zero bytes. The length field is the \<^verbatim>\<open>Size\<close> of the
  message when snappy is off and the length of the compressed payload when it is on; it
  is the length of the body whenever snappy is on or the \<^verbatim>\<open>Size\<close> of the message is the
  length of its payload. The body that the reading side takes from a frame has the
  length that the first 4 bytes of the decrypted header block give.
\<close>

theorem header_four_bytes:
  assumes w: "writeQKCMsg E q msg = Ret (None, q')"
  shows "32 \<le> length (sent q q') \<and>
         plain_header (enc q) (sent q q')
           = PutUint32 (Size (wire_msg E q msg (read_bytes (Payload msg)))) @ replicate 12 0 \<and>
         Size (wire_msg E q msg (read_bytes (Payload msg)))
           = (if snappy q then of_nat (length (snappyEncode E (read_bytes (Payload msg))))
              else Size msg) \<and>
         (snappy q \<or> unat (Size msg) = length (read_bytes (Payload msg)) \<longrightarrow>
            Size (wire_msg E q msg (read_bytes (Payload msg)))
              = of_nat (length (wire_body E q (read_bytes (Payload msg))))) \<and>
         (\<forall>r content. fst (readQKCFrame E r) = Inr content \<longrightarrow>
            length content = unat (Uint32 (take 4 (plain_header (dec r) (rd (conn r))))))"
proof -
  let ?p = "read_bytes (Payload msg)"
  have f: "writeQKCFrame E q (wire_msg E q msg ?p) = Ret (None, q')"
    using w by (rule writeQKCMsg_ok_frame)
  have "of_nat (unat (Size msg)) = Size msg"
    by simp
  then have "unat (Size msg) = length ?p \<longrightarrow> Size msg = of_nat (length ?p)"
    by metis
  then have "snappy q \<or> unat (Size msg) = length ?p \<longrightarrow>
      Size (wire_msg E q msg ?p) = of_nat (length (wire_body E q ?p))"
    by (auto simp: wire_msg_def wire_body_def)
  moreover have "Size (wire_msg E q msg ?p)
      = (if snappy q then of_nat (length (snappyEncode E ?p)) else Size msg)"
    by (simp add: wire_msg_def)
  ultimately show ?thesis
    using writeQKCFrame_header[OF f] readQKCFrame_length by blast
qed

theorem header_four_bytes_witness:
  "\<exists>q'. writeQKCMsg ex_env (ex_rw False) ex_msg1 = Ret (None, q') \<and>
      32 \<le> length (sent (ex_rw False) q') \<and>
      plain_header (enc (ex_rw False)) (sent (ex_rw False) q')
        = [0, 0, 0, 1, 0, 0, 0, 0, 0, 0, 0, 0, 0, 0, 0, 0] \<and>
      Size (wire_msg ex_env (ex_rw False) ex_msg1 (read_bytes (Payload ex_msg1))) = 1 \<and>
      length [255 :: byte]
        = unat (Uint32 (take 4 (plain_header (dec (receive (ex_rw False) ex_frame1))
                                   (rd (conn (receive (ex_rw False) ex_frame1))))))"
proof -
  have p: "Payload ex_msg1 = BytesReader [255]"
    by (simp add: ex_msg1_def)
  have le: "snappy (ex_rw False) \<longrightarrow> Size ex_msg1 \<le> maxUint24"
    by (simp add: ex_rw_def)
  have cap: "can_write (conn (ex_rw False)) (48 + length (wire_body ex_env (ex_rw False) [255]))"
    by (simp add: can_write_def ex_rw_def)
  from macLen16_ex_env p le cap obtain q' where
    w: "writeQKCMsg ex_env (ex_rw False) ex_msg1 = Ret (None, q')"
    by (rule writeQKCMsg_sent)
  have b: "read_bytes (Payload ex_msg1) = [255]"
    by (simp add: read_bytes_def p)
  have z: "Size (wire_msg ex_env (ex_rw False) ex_msg1 [255]) = 1"
    by (simp add: wire_msg_def ex_rw_def ex_msg1_def)
  have u: "\<not> snappy (ex_rw False)" "unat (Size ex_msg1) = length [255 :: byte]"
    by (simp_all add: ex_rw_def ex_msg1_def)
  note t = header_four_bytes [OF w]
  from t have "32 \<le> length (sent (ex_rw False) q')"
    "plain_header (enc (ex_rw False)) (sent (ex_rw False) q')
        = [0, 0, 0, 1, 0, 0, 0, 0, 0, 0, 0, 0, 0, 0, 0, 0]"
    by (simp_all add: b z PutUint32_1 replicate_12)
  moreover from t u have "Size (wire_msg ex_env (ex_rw False) ex_msg1 (read_bytes (Payload ex_msg1))) = 1"
    by (simp add: b z)
  moreover from t ex_frame1_read [of False] have "length [255 :: byte]
     = unat (Uint32 (take 4 (plain_header (dec (receive (ex_rw False) ex_frame1))
                                (rd (conn (receive (ex_rw False) ex_frame1))))))"
    by blast
  ultimately show ?thesis
    using w by blast
qed

section \<open>Flipped MAC bits\<close>

lemma length_flipBitAt [simp]: "length (flipBitAt k bs) = length bs"
  by (simp add: flipBitAt_def)

lemma flipBitAt_neq:
  assumes "k div 8 < length bs"
  shows "flipBitAt k bs \<noteq> bs"
proof
  assume "flipBitAt k bs = bs"
  then have "flipBitAt k bs ! (k div 8) = bs ! (k div 8)"
    by simp
  then have "flip_bit (k mod 8) (bs ! (k div 8)) = bs ! (k div 8)"
    using assms by (simp add: flipBitAt_def)
  then show False
    by (simp add: flip_bit_eq_idem_iff)
qed

lemma flipBitAt_append1:
  "k div 8 < length as \<Longrightarrow> flipBitAt k (as @ bs) = flipBitAt k as @ bs"
  by (simp add: flipBitAt_def list_update_append nth_append)

lemma flipBitAt_append2:
  assumes "length as \<le> k div 8"
  shows "flipBitAt k (as @ bs) = as @ flipBitAt (k - 8 * length as) bs"
proof -
  have "8 * length as \<le> k"
    using assms by (simp add: less_eq_div_iff_mult_less_eq mult.commute)
  then obtain d where k: "k = 8 * length as + d"
    using le_Suc_ex by blast
  have "(k - 8 * length as) div 8 = k div 8 - length as"
    and "(k - 8 * length as) mod 8 = k mod 8"
    by (simp_all add: k)
  then show ?thesis
    using assms by (simp add: flipBitAt_def list_update_append nth_append)
qed

lemma readQKCFrame_bad_header:
  assumes rd: "rd (conn r) = H @ M @ rest"
    and len: "length H = 16" "length M = 16"
    and um1: "updateMAC E (ingressMAC r) (macCipher r) H = (hm, in1)"
    and ne: "hm \<noteq> M"
  shows "fst (readQKCFrame E r) = Inl ErrBadHeaderMAC"
proof -
  have r1: "ReadFull (conn r) 32 = (Inr (H @ M), (conn r)\<lparr>rd := rest\<rparr>)"
    using rd len by (intro ReadFull_prefix) auto
  show ?thesis
    using len um1 ne by (simp add: readQKCFrame_def r1 Let_def)
qed


lemma flipBitAt_mid:
  assumes "length as \<le> k div 8" and "k div 8 < length as + length ms"
  obtains ms' where "flipBitAt k (as @ ms @ bs) = as @ ms' @ bs" "length ms' = length ms" "ms' \<noteq> ms"
proof -
  have "8 * length as \<le> k"
    using assms(1) by (simp add: less_eq_div_iff_mult_less_eq mult.commute)
  then obtain d where k: "k = 8 * length as + d"
    using le_Suc_ex by blast
  have "(k - 8 * length as) div 8 = k div 8 - length as"
    by (simp add: k)
  then have lt: "(k - 8 * length as) div 8 < length ms"
    using assms by simp
  have "flipBitAt k (as @ ms @ bs) = as @ flipBitAt (k - 8 * length as) ms @ bs"
    using assms(1) lt by (simp add: flipBitAt_append2 flipBitAt_append1)
  moreover have "flipBitAt (k - 8 * length as) ms \<noteq> ms"
    using lt by (rule flipBitAt_neq)
  ultimately show thesis
    using that by simp
qed

text \<open>
  C5. Take the frame that a successful write put on the wire and flip one bit of it.
  When the bit lies in the header MAC (bytes 16 to 31) the matching reading side fails
  with "bad header MAC"; when it lies in the frame MAC (the last 16 bytes), and the
  length in the header is the length of the body, it fails with "bad frame MAC". In both
  cases what comes back is the zero message and the error.
\<close>

theorem flipped_mac_rejected:
  assumes m16: "macLen16 E"
    and pay: "Payload msg = BytesReader p"
    and le: "snappy q \<longrightarrow> Size msg \<le> maxUint24"
    and cap: "can_write (conn q) (48 + length (wire_body E q p))"
    and match: "matching r q"
  shows "\<exists>q'. writeQKCMsg E q msg = Ret (None, q') \<and>
           length (sent q q') = 48 + length (wire_body E q p) \<and>
           (\<forall>k. 16 \<le> k div 8 \<and> k div 8 < 32 \<longrightarrow>
              fst (readQKCMsg E (receive r (flipBitAt k (sent q q'))))
                = (zeroMsg, Some ErrBadHeaderMAC)) \<and>
           ((\<not> snappy q \<longrightarrow> unat (Size msg) = length p) \<and>
            (snappy q \<longrightarrow> length (snappyEncode E p) < 2 ^ 32) \<longrightarrow>
            (\<forall>k. 32 + length (wire_body E q p) \<le> k div 8 \<and>
                 k div 8 < 48 + length (wire_body E q p) \<longrightarrow>
              fst (readQKCMsg E (receive r (flipBitAt k (sent q q'))))
                = (zeroMsg, Some ErrBadFrameMAC)))"
proof -
  let ?H = "xor_bytes (enc q) (PutUint32 (Size (wire_msg E q msg p)) @ replicate 12 0)"
  let ?CT = "xor_bytes (\<lambda>i. enc q (i + 16)) (wire_body E q p)"
  from m16 pay le cap obtain q' hm eg1 fm eg3 where
    w: "writeQKCMsg E q msg = Ret (None, q')" and
    um1: "updateMAC E (egressMAC q) (macCipher q) ?H = (hm, eg1)" and
    um2: "updateMAC E (macWrite E eg1 ?CT) (macCipher q) (macSum E (macWrite E eg1 ?CT)) = (fm, eg3)" and
    l: "length hm = 16" "length fm = 16" and
    s: "sent q q' = ?H @ hm @ ?CT @ fm"
    by (rule writeQKCMsg_sent)
  have lH: "length ?H = 16"
    by simp
  have len: "length (sent q q') = 48 + length (wire_body E q p)"
    using s l by simp
  have hdr: "fst (readQKCMsg E (receive r (flipBitAt k (sent q q')))) = (zeroMsg, Some ErrBadHeaderMAC)"
    if k: "16 \<le> k div 8 \<and> k div 8 < 32" for k
  proof -
    have "length ?H \<le> k div 8" "k div 8 < length ?H + length hm"
      using k l by simp_all
    then obtain M where
      f: "flipBitAt k (?H @ hm @ (?CT @ fm)) = ?H @ M @ (?CT @ fm)" and lM: "length M = length hm"
      and ne: "M \<noteq> hm"
      by (rule flipBitAt_mid)
    have rd: "rd (conn (receive r (flipBitAt k (sent q q')))) = ?H @ M @ (?CT @ fm)"
      using f s by simp
    have u: "updateMAC E (ingressMAC (receive r (flipBitAt k (sent q q'))))
        (macCipher (receive r (flipBitAt k (sent q q')))) ?H = (hm, eg1)"
      using um1 match by (simp add: matching_def)
    have "fst (readQKCFrame E (receive r (flipBitAt k (sent q q')))) = Inl ErrBadHeaderMAC"
      using ne lM l(1) by (intro readQKCFrame_bad_header[OF rd lH _ u]) auto
    then show ?thesis
      by (rule readQKCMsg_frame_error)
  qed
  have trl: "fst (readQKCMsg E (receive r (flipBitAt k (sent q q')))) = (zeroMsg, Some ErrBadFrameMAC)"
    if v: "(\<not> snappy q \<longrightarrow> unat (Size msg) = length p) \<and>
            (snappy q \<longrightarrow> length (snappyEncode E p) < 2 ^ 32)"
      and k: "32 + length (wire_body E q p) \<le> k div 8 \<and> k div 8 < 48 + length (wire_body E q p)"
    for k
  proof -
    have sz: "unat (Size (wire_msg E q msg p)) = length (wire_body E q p)"
      using Size_wire_msg[of q msg p E] v by simp
    have "length (?H @ hm @ ?CT) \<le> k div 8" "k div 8 < length (?H @ hm @ ?CT) + length fm"
      using k l by simp_all
    then obtain T where
      f: "flipBitAt k ((?H @ hm @ ?CT) @ fm @ []) = (?H @ hm @ ?CT) @ T @ []"
      and lT: "length T = length fm" and ne: "T \<noteq> fm"
      by (rule flipBitAt_mid)
    have rd: "rd (conn (receive r (flipBitAt k (sent q q')))) = ?H @ hm @ ?CT @ T @ []"
      using f s by simp
    have u1: "updateMAC E (ingressMAC (receive r (flipBitAt k (sent q q'))))
        (macCipher (receive r (flipBitAt k (sent q q')))) ?H = (hm, eg1)"
      using um1 match by (simp add: matching_def)
    have u2: "updateMAC E (macWrite E eg1 ?CT) (macCipher (receive r (flipBitAt k (sent q q'))))
        (macSum E (macWrite E eg1 ?CT)) = (fm, eg3)"
      using um2 match by (simp add: matching_def)
    have z: "unat (Uint32 (take 4 (xor_bytes (dec (receive r (flipBitAt k (sent q q')))) ?H)))
        = length ?CT"
      using sz match by (simp add: matching_def Uint32_PutUint32)
    have "fst (readQKCFrame E (receive r (flipBitAt k (sent q q')))) =
       (if hm \<noteq> hm then Inl ErrBadHeaderMAC
        else if fm \<noteq> T then Inl ErrBadFrameMAC
        else Inr (xor_bytes (\<lambda>i. dec (receive r (flipBitAt k (sent q q'))) (i + 16)) ?CT))"
      using l lT by (intro readQKCFrame_eval[OF rd lH _ _ u1 z u2]) auto
    then have "fst (readQKCFrame E (receive r (flipBitAt k (sent q q')))) = Inl ErrBadFrameMAC"
      using ne by auto
    then show ?thesis
      by (rule readQKCMsg_frame_error)
  qed
  show ?thesis
    using w len hdr trl by blast
qed

theorem flipped_mac_rejected_witness:
  "\<exists>q'. writeQKCMsg ex_env (ex_rw False) ex_hello = Ret (None, q') \<and>
      length (sent (ex_rw False) q') = 50 \<and>
      fst (readQKCMsg ex_env (receive (ex_rw False) (flipBitAt 128 (sent (ex_rw False) q'))))
        = (zeroMsg, Some ErrBadHeaderMAC) \<and>
      fst (readQKCMsg ex_env (receive (ex_rw False) (flipBitAt 399 (sent (ex_rw False) q'))))
        = (zeroMsg, Some ErrBadFrameMAC)"
proof -
  have p: "Payload ex_hello = BytesReader [1, 24]"
    by (simp add: ex_hello_def)
  have le: "snappy (ex_rw False) \<longrightarrow> Size ex_hello \<le> maxUint24"
    by (simp add: ex_rw_def)
  have b: "wire_body ex_env (ex_rw False) [1, 24] = [1, 24]"
    by (simp add: wire_body_def ex_rw_def)
  have cap: "can_write (conn (ex_rw False)) (48 + length (wire_body ex_env (ex_rw False) [1, 24]))"
    by (simp add: can_write_def ex_rw_def)
  have m: "matching (ex_rw False) (ex_rw False)"
    by (simp add: matching_def ex_rw_def)
  have v: "(\<not> snappy (ex_rw False) \<longrightarrow> unat (Size ex_hello) = length [1, 24 :: byte]) \<and>
      (snappy (ex_rw False) \<longrightarrow> length (snappyEncode ex_env [1, 24]) < 2 ^ 32)"
    by (simp add: ex_rw_def ex_hello_def)
  have k1: "16 \<le> (128 :: nat) div 8 \<and> (128 :: nat) div 8 < 32"
    by simp
  have k2: "32 + length (wire_body ex_env (ex_rw False) [1, 24]) \<le> (399 :: nat) div 8 \<and>
      (399 :: nat) div 8 < 48 + length (wire_body ex_env (ex_rw False) [1, 24])"
    by (simp add: b)
  from flipped_mac_rejected [OF macLen16_ex_env p le cap m] obtain q' where
    "writeQKCMsg ex_env (ex_rw False) ex_hello = Ret (None, q')"
    "length (sent (ex_rw False) q') = 48 + length (wire_body ex_env (ex_rw False) [1, 24])"
    "\<forall>k. 16 \<le> k div 8 \<and> k div 8 < 32 \<longrightarrow>
       fst (readQKCMsg ex_env (receive (ex_rw False) (flipBitAt k (sent (ex_rw False) q'))))
         = (zeroMsg, Some ErrBadHeaderMAC)"
    "(\<not> snappy (ex_rw False) \<longrightarrow> unat (Size ex_hello) = length [1, 24 :: byte]) \<and>
     (snappy (ex_rw False) \<longrightarrow> length (snappyEncode ex_env [1, 24]) < 2 ^ 32) \<longrightarrow>
     (\<forall>k. 32 + length (wire_body ex_env (ex_rw False) [1, 24]) \<le> k div 8 \<and>
          k div 8 < 48 + length (wire_body ex_env (ex_rw False) [1, 24]) \<longrightarrow>
       fst (readQKCMsg ex_env (receive (ex_rw False) (flipBitAt k (sent (ex_rw False) q'))))
         = (zeroMsg, Some ErrBadFrameMAC))"
    by blast
  with v k1 k2 show ?thesis
    by (intro exI[of _ q']) (simp add: b)
qed

section \<open>Application handshake\<close>

lemma writeQKCFrame_ok_rd:
  assumes "writeQKCFrame E q msg = Ret (None, q')" and "Payload msg = BytesReader body"
  shows "rd (conn q') = rd (conn q)" and "dec q' = dec q" and "ingressMAC q' = ingressMAC q"
    and "macCipher q' = macCipher q" and "snappy q' = snappy q"
proof -
  from assms obtain hm c1 c2 fm eg3 c3 where
    c1: "conn_Write (conn q)
       (xor_bytes (enc q) (PutUint32 (Size msg) @ replicate 12 0) @ copy_bytes (replicate 16 0) hm)
       = (None, c1)" and
    c2: "conn_Write c1 (xor_bytes (\<lambda>i. enc q (i + 16)) body) = (None, c2)" and
    c3: "conn_Write c2 fm = (None, c3)" and
    q': "q' = q\<lparr>enc := (\<lambda>i. enc q (i + length body + 16)), egressMAC := eg3, conn := c3\<rparr>"
    by (rule writeQKCFrame_okE)
  show "rd (conn q') = rd (conn q)"
    using conn_Write_ok(2)[OF c1] conn_Write_ok(2)[OF c2] conn_Write_ok(2)[OF c3] q' by simp
  show "dec q' = dec q" "ingressMAC q' = ingressMAC q" "macCipher q' = macCipher q"
    "snappy q' = snappy q"
    using q' by simp_all
qed

lemma readQKCMsg_closed_conn:
  assumes "rd (conn q) = []"
  shows "fst (readQKCMsg E q) = (zeroMsg, Some ErrEOF)"
  using assms by (simp add: readQKCMsg_def readQKCFrame_def ReadFull_def)

text \<open>
  When the frame read of the handshake fails before a payload reader exists, the
  handshake does not return the error: it reads the nil payload and panics.
\<close>

lemma doProtoHandshake_failed_read_panics:
  assumes "rlpxDoProtoHandshake E q our = ((per, None), q1)"
    and "WriteMsg E q1 (fst (makeMsgHello E our)) = Ret (None, q2)"
    and "fst (readQKCFrame E q2) = Inl e"
  shows "doProtoHandshake E q our = Panic"
proof -
  obtain r q3 where rf: "readQKCFrame E q2 = (r, q3)"
    by (cases "readQKCFrame E q2") auto
  with assms(3) have "readQKCFrame E q2 = (Inl e, q3)" by simp
  then have "ReadMsg E q2 = ((zeroMsg, Some e), q3)"
    by (simp add: ReadMsg_def readQKCMsg_def)
  moreover obtain hello herr where "makeMsgHello E our = (hello, herr)"
    by (cases "makeMsgHello E our") auto
  ultimately show ?thesis
    using assms(1,2)
    by (simp add: doProtoHandshake_def zeroMsg_def)
qed

text \<open>
  When the frame read of the handshake fails in the snappy branch, the payload reader of
  the message that comes back is exhausted: the handshake drops the error, decodes the
  empty body, and its result is whatever the decoder makes of the empty body.
\<close>

lemma doProtoHandshake_snappy_error_dropped:
  assumes "rlpxDoProtoHandshake E q our = ((per, None), q1)"
    and "WriteMsg E q1 (fst (makeMsgHello E our)) = Ret (None, q2)"
    and "fst (readQKCFrame E q2) = Inr content" and "snappy q2"
    and "snappyDecodedLen E content = Inl e"
  shows "snd (fst (ReadMsg E q2)) = Some e \<and>
         doProtoHandshake E q our =
           (case DecodeQKCMsg E [] of
              Inl e' \<Rightarrow> Ret ((None, Some e'), snd (ReadMsg E q2))
            | Inr m \<Rightarrow> Ret ((per, None), snd (ReadMsg E q2)))"
proof -
  obtain q3 where rf: "readQKCFrame E q2 = (Inr content, q3)"
    using assms(3) by (cases "readQKCFrame E q2") auto
  have "snappy q3"
    using readQKCFrame_keeps(1)[of E q2] rf assms(4) by simp
  then have rm: "ReadMsg E q2 =
      ((zeroMsg\<lparr>Size := of_nat (length content), Payload := BytesReader []\<rparr>, Some e), q3)"
    using rf assms(5) by (simp add: ReadMsg_def readQKCMsg_def Let_def)
  obtain hello herr where "makeMsgHello E our = (hello, herr)"
    by (cases "makeMsgHello E our") auto
  then show ?thesis
    using assms(1,2) rm by (simp add: doProtoHandshake_def split: sum.splits)
qed

text \<open>
  C4. The specification has a failed frame read make the handshake return an error. Here
  the peer closes the connection without an answer: the base handshake and the write of
  the Hello message succeed, \<^verbatim>\<open>ReadMsg\<close> fails with the end of the stream, and
  \<^verbatim>\<open>doProtoHandshake\<close> panics, since line 233 overwrites the error and reads the nil
  payload of the zero message.
\<close>

theorem doProtoHandshake_closed_conn_panics:
  "doProtoHandshake ex_env (ex_rw False) ex_our = Panic"
proof -
  have b: "rlpxDoProtoHandshake ex_env (ex_rw False) ex_our = ((Some ex_our, None), ex_rw False)"
    by (simp add: ex_env_def)
  have h: "fst (makeMsgHello ex_env ex_our) = ex_hello"
    by (simp add: ex_env_def)
  have p: "Payload ex_hello = BytesReader [1, 24]"
    by (simp add: ex_hello_def)
  have "can_write (conn (ex_rw False)) (48 + length [1, 24 :: byte])"
    by (simp add: can_write_def ex_rw_def)
  with macLen16_ex_env p obtain q2 where
    w: "writeQKCFrame ex_env (ex_rw False) ex_hello = Ret (None, q2)"
    by (rule writeQKCFrame_succeeds)
  then have w': "WriteMsg ex_env (ex_rw False) (fst (makeMsgHello ex_env ex_our)) = Ret (None, q2)"
    by (simp add: WriteMsg_def writeQKCMsg_def h ex_rw_def)
  have "rd (conn q2) = []"
    using writeQKCFrame_ok_rd(1)[OF w p] by (simp add: ex_rw_def)
  then have "fst (readQKCFrame ex_env q2) = Inl ErrEOF"
    by (simp add: readQKCFrame_def ReadFull_def)
  with b w' show ?thesis
    by (rule doProtoHandshake_failed_read_panics)
qed

section \<open>Dispatch loop\<close>

lemma qkcMsgHandle_loop_stop:
  "qkcMsgHandle_step E (ws i) = Stop e \<Longrightarrow> qkcMsgHandle_loop E ws i calls = Some (Ret (e, calls))"
  by (subst qkcMsgHandle_loop.simps) simp

lemma qkcMsgHandle_loop_continue:
  "qkcMsgHandle_step E (ws i) = Continue cs \<Longrightarrow>
   qkcMsgHandle_loop E ws i calls = qkcMsgHandle_loop E ws (Suc i) (calls @ cs)"
  by (subst qkcMsgHandle_loop.simps) simp

lemma qkcMsgHandle_step_no_serializer:
  assumes "ReadAll (Payload msg) = Ret (body, None)" and "DecodeQKCMsg E body = Inr m"
    and "OPSerializerMap E (op m) = None"
  shows "qkcMsgHandle_step E (msg, None) = Stop None"
  using assms by (simp add: qkcMsgHandle_step_def)

text \<open>
  Whatever the tables and the stream: a message whose opcode has no serializer stops
  the loop with the nil error.
\<close>

lemma qkcMsgHandle_loop_no_serializer:
  assumes "ws i = (msg, None)" and "ReadAll (Payload msg) = Ret (body, None)"
    and "DecodeQKCMsg E body = Inr m" and "OPSerializerMap E (op m) = None"
  shows "qkcMsgHandle_loop E ws i calls = Some (Ret (None, calls))"
  using assms by (intro qkcMsgHandle_loop_stop) (simp add: qkcMsgHandle_step_no_serializer)

lemma ex_ws_0: "ex_ws body 0 = (\<lparr>Code = 16, Size = of_nat (length body), Payload = BytesReader body\<rparr>, None)"
  by (simp add: ex_ws_def)

lemma ex_ws_Suc: "ex_ws body (Suc i) = (zeroMsg, Some ErrEOF)"
  by (simp add: ex_ws_def)

lemma ex_step_EOF: "qkcMsgHandle_step E (zeroMsg, Some ErrEOF) = Stop (Some ErrEOF)"
  by (simp add: qkcMsgHandle_step_def)

text \<open>
  C3. The specification asks for a protocol error when the opcode has no serializer. On the
  message with opcode 9, which no table of \<open>ex_env\<close> knows, the loop stops and no
  handler is called, but what it returns is the nil error: line 52 returns the variable
  that line 44 has just found to be nil.
\<close>

theorem qkcMsgHandle_unknown_opcode_returns_nil:
  "OPSerializerMap ex_env 9 = None \<and>
   qkcMsgHandle ex_env (ex_ws [9, 1, 2]) = Some (Ret (None, []))"
proof -
  have "qkcMsgHandle_step ex_env (ex_ws [9, 1, 2] 0) = Stop None"
    by (simp add: ex_ws_0 qkcMsgHandle_step_def ex_env_def ex_DecodeQKCMsg_def)
  then show ?thesis
    by (simp add: qkcMsgHandle_def qkcMsgHandle_loop_stop ex_env_def)
qed

text \<open>
  C8, as stated, fails: opcode 3 has a fire-and-forget handler in \<open>ex_env\<close> and no
  serializer, and on a message with opcode 3 the loop stops without calling anything.
\<close>

theorem qkcMsgHandle_handler_without_serializer:
  "OPNonRPCMap ex_env 3 = Some 30 \<and>
   qkcMsgHandle ex_env (ex_ws [3, 170]) = Some (Ret (None, []))"
proof -
  have "qkcMsgHandle_step ex_env (ex_ws [3, 170] 0) = Stop None"
    by (simp add: ex_ws_0 qkcMsgHandle_step_def ex_env_def ex_DecodeQKCMsg_def)
  then show ?thesis
    by (simp add: qkcMsgHandle_def qkcMsgHandle_loop_stop ex_env_def)
qed

text \<open>
  The bounded run and the loop agree: when the loop ends within \<open>n\<close> turns, the loop
  returns what the bounded run found, with the calls made.
\<close>

lemma qkcMsgHandle_turns_loop:
  "qkcMsgHandle_turns E ws n i calls = (cs, Some r) \<Longrightarrow>
   qkcMsgHandle_loop E ws i calls = Some (case r of Ret e \<Rightarrow> Ret (e, cs) | Panic \<Rightarrow> Panic)"
proof (induction n arbitrary: i calls)
  case 0
  then show ?case by simp
next
  case (Suc n)
  show ?case
  proof (cases "qkcMsgHandle_step E (ws i)")
    case (Stop e)
    with Suc.prems show ?thesis
      by (subst qkcMsgHandle_loop.simps) auto
  next
    case (Continue c)
    with Suc.prems have "qkcMsgHandle_turns E ws n (Suc i) (calls @ c) = (cs, Some r)"
      by simp
    then have "qkcMsgHandle_loop E ws (Suc i) (calls @ c)
        = Some (case r of Ret e \<Rightarrow> Ret (e, cs) | Panic \<Rightarrow> Panic)"
      by (rule Suc.IH)
    with Continue show ?thesis
      by (subst qkcMsgHandle_loop.simps) simp
  next
    case StepPanic
    with Suc.prems show ?thesis
      by (subst qkcMsgHandle_loop.simps) auto
  qed
qed

text \<open>
  C8, amended: when the opcode of the decoded message has a serializer, a registered
  fire-and-forget handler is called once with the opcode and the data, an RPC handler
  (when there is no fire-and-forget handler) is called once with the data, and the loop
  goes on with the next message. Said of the turn of the loop on message \<open>i\<close>: the turn
  makes exactly that one call and continues; after this one turn the calls made are the
  earlier ones followed by that call and the loop is still running; every longer run
  from message \<open>i\<close> is the run from message \<open>i + 1\<close> with that call added; and so is
  the whole loop.
\<close>

theorem qkcMsgHandle_dispatch:
  assumes "ws i = (msg, None)" and "ReadAll (Payload msg) = Ret (body, None)"
    and "DecodeQKCMsg E body = Inr m" and "OPSerializerMap E (op m) = Some ser"
  shows "(OPNonRPCMap E (op m) = Some h \<longrightarrow>
            qkcMsgHandle_step E (ws i) = Continue [NonRPCCall h (op m) (data m)] \<and>
            qkcMsgHandle_turns E ws (Suc 0) i calls
              = (calls @ [NonRPCCall h (op m) (data m)], None) \<and>
            qkcMsgHandle_turns E ws (Suc n) i calls
              = qkcMsgHandle_turns E ws n (Suc i) (calls @ [NonRPCCall h (op m) (data m)]) \<and>
            qkcMsgHandle_loop E ws i calls =
            qkcMsgHandle_loop E ws (Suc i) (calls @ [NonRPCCall h (op m) (data m)])) \<and>
         (OPNonRPCMap E (op m) = None \<and> OpRPCMap E (op m) = Some h \<longrightarrow>
            qkcMsgHandle_step E (ws i) = Continue [RPCCall h (data m)] \<and>
            qkcMsgHandle_turns E ws (Suc 0) i calls = (calls @ [RPCCall h (data m)], None) \<and>
            qkcMsgHandle_turns E ws (Suc n) i calls
              = qkcMsgHandle_turns E ws n (Suc i) (calls @ [RPCCall h (data m)]) \<and>
            qkcMsgHandle_loop E ws i calls =
            qkcMsgHandle_loop E ws (Suc i) (calls @ [RPCCall h (data m)]))"
proof (intro conjI impI)
  assume "OPNonRPCMap E (op m) = Some h"
  with assms have s: "qkcMsgHandle_step E (ws i) = Continue [NonRPCCall h (op m) (data m)]"
    by (simp add: qkcMsgHandle_step_def)
  then show "qkcMsgHandle_step E (ws i) = Continue [NonRPCCall h (op m) (data m)]" .
  from s show "qkcMsgHandle_turns E ws (Suc 0) i calls
      = (calls @ [NonRPCCall h (op m) (data m)], None)"
    by simp
  from s show "qkcMsgHandle_turns E ws (Suc n) i calls
      = qkcMsgHandle_turns E ws n (Suc i) (calls @ [NonRPCCall h (op m) (data m)])"
    by simp
  from s show "qkcMsgHandle_loop E ws i calls =
      qkcMsgHandle_loop E ws (Suc i) (calls @ [NonRPCCall h (op m) (data m)])"
    by (rule qkcMsgHandle_loop_continue)
next
  assume "OPNonRPCMap E (op m) = None \<and> OpRPCMap E (op m) = Some h"
  with assms have s: "qkcMsgHandle_step E (ws i) = Continue [RPCCall h (data m)]"
    by (simp add: qkcMsgHandle_step_def)
  then show "qkcMsgHandle_step E (ws i) = Continue [RPCCall h (data m)]" .
  from s show "qkcMsgHandle_turns E ws (Suc 0) i calls = (calls @ [RPCCall h (data m)], None)"
    by simp
  from s show "qkcMsgHandle_turns E ws (Suc n) i calls
      = qkcMsgHandle_turns E ws n (Suc i) (calls @ [RPCCall h (data m)])"
    by simp
  from s show "qkcMsgHandle_loop E ws i calls =
      qkcMsgHandle_loop E ws (Suc i) (calls @ [RPCCall h (data m)])"
    by (rule qkcMsgHandle_loop_continue)
qed

theorem qkcMsgHandle_dispatch_witness:
  "qkcMsgHandle_step ex_env (ex_ws [1, 170] 0) = Continue [NonRPCCall 10 1 [170]] \<and>
   qkcMsgHandle_turns ex_env (ex_ws [1, 170]) (Suc 0) 0 [] = ([NonRPCCall 10 1 [170]], None) \<and>
   qkcMsgHandle_turns ex_env (ex_ws [1, 170]) (Suc (Suc 0)) 0 []
     = ([NonRPCCall 10 1 [170]], Some (Ret (Some ErrEOF))) \<and>
   qkcMsgHandle ex_env (ex_ws [1, 170]) = Some (Ret (Some ErrEOF, [NonRPCCall 10 1 [170]])) \<and>
   qkcMsgHandle_step ex_env (ex_ws [2, 187] 0) = Continue [RPCCall 20 [187]] \<and>
   qkcMsgHandle_turns ex_env (ex_ws [2, 187]) (Suc 0) 0 [] = ([RPCCall 20 [187]], None) \<and>
   qkcMsgHandle_turns ex_env (ex_ws [2, 187]) (Suc (Suc 0)) 0 []
     = ([RPCCall 20 [187]], Some (Ret (Some ErrEOF))) \<and>
   qkcMsgHandle ex_env (ex_ws [2, 187]) = Some (Ret (Some ErrEOF, [RPCCall 20 [187]]))"
proof -
  have d1: "DecodeQKCMsg ex_env [1, 170] = Inr \<lparr>metaData = [], op = 1, rpcID = 0, data = [170]\<rparr>"
    and d2: "DecodeQKCMsg ex_env [2, 187] = Inr \<lparr>metaData = [], op = 2, rpcID = 0, data = [187]\<rparr>"
    by (simp_all add: ex_env_def ex_DecodeQKCMsg_def)
  have s1: "OPSerializerMap ex_env (op \<lparr>metaData = [], op = 1, rpcID = 0, data = [170]\<rparr>) = Some ''HelloCmd''"
    and s2: "OPSerializerMap ex_env (op \<lparr>metaData = [], op = 2, rpcID = 0, data = [187]\<rparr>)
               = Some ''GetPeerListRequest''"
    by (simp_all add: ex_env_def)
  have n1: "OPNonRPCMap ex_env (op \<lparr>metaData = [], op = 1, rpcID = 0, data = [170]\<rparr>) = Some 10"
    and n2: "OPNonRPCMap ex_env (op \<lparr>metaData = [], op = 2, rpcID = 0, data = [187]\<rparr>) = None \<and>
             OpRPCMap ex_env (op \<lparr>metaData = [], op = 2, rpcID = 0, data = [187]\<rparr>) = Some 20"
    by (simp_all add: ex_env_def)
  have r: "\<And>b. ReadAll (Payload \<lparr>Code = 16, Size = of_nat (length b), Payload = BytesReader b\<rparr>)
             = Ret (b, None)"
    by simp
  have e: "\<And>b cs. qkcMsgHandle_loop ex_env (ex_ws b) (Suc 0) cs = Some (Ret (Some ErrEOF, cs))"
    by (rule qkcMsgHandle_loop_stop) (simp add: ex_ws_Suc ex_step_EOF)
  have t: "\<And>b cs. qkcMsgHandle_turns ex_env (ex_ws b) (Suc 0) (Suc 0) cs
      = (cs, Some (Ret (Some ErrEOF)))"
    by (simp add: ex_ws_Suc ex_step_EOF)
  note a = qkcMsgHandle_dispatch [where ws = "ex_ws [1, 170]" and i = 0 and h = 10
      and calls = "[]" and n = "Suc 0", OF ex_ws_0 r d1 s1]
  note b = qkcMsgHandle_dispatch [where ws = "ex_ws [2, 187]" and i = 0 and h = 20
      and calls = "[]" and n = "Suc 0", OF ex_ws_0 r d2 s2]
  from a n1 have "qkcMsgHandle_step ex_env (ex_ws [1, 170] 0) = Continue [NonRPCCall 10 1 [170]]"
    "qkcMsgHandle_turns ex_env (ex_ws [1, 170]) (Suc 0) 0 [] = ([NonRPCCall 10 1 [170]], None)"
    "qkcMsgHandle_turns ex_env (ex_ws [1, 170]) (Suc (Suc 0)) 0 []
       = qkcMsgHandle_turns ex_env (ex_ws [1, 170]) (Suc 0) (Suc 0) [NonRPCCall 10 1 [170]]"
    "qkcMsgHandle_loop ex_env (ex_ws [1, 170]) 0 []
       = qkcMsgHandle_loop ex_env (ex_ws [1, 170]) (Suc 0) [NonRPCCall 10 1 [170]]"
    by simp_all
  moreover from b n2 have "qkcMsgHandle_step ex_env (ex_ws [2, 187] 0) = Continue [RPCCall 20 [187]]"
    "qkcMsgHandle_turns ex_env (ex_ws [2, 187]) (Suc 0) 0 [] = ([RPCCall 20 [187]], None)"
    "qkcMsgHandle_turns ex_env (ex_ws [2, 187]) (Suc (Suc 0)) 0 []
       = qkcMsgHandle_turns ex_env (ex_ws [2, 187]) (Suc 0) (Suc 0) [RPCCall 20 [187]]"
    "qkcMsgHandle_loop ex_env (ex_ws [2, 187]) 0 []
       = qkcMsgHandle_loop ex_env (ex_ws [2, 187]) (Suc 0) [RPCCall 20 [187]]"
    by simp_all
  ultimately show ?thesis
    by (simp only: qkcMsgHandle_def e t simp_thms)
qed

section \<open>Slave configuration\<close>

text \<open>
  C9. Whenever \<^verbatim>\<open>UnmarshalJSON\<close> accepts its input (it returns no error), the
  \<^verbatim>\<open>WSPort\<close> of the resulting configuration is \<^verbatim>\<open>DefaultWSPort\<close>, whatever
  port the input carried.
\<close>

theorem UnmarshalJSON_WSPort_default:
  assumes "fst (UnmarshalJSON jsonUnmarshal NewChainMask DefaultWSPort s input) = None"
  shows "WSPort (snd (UnmarshalJSON jsonUnmarshal NewChainMask DefaultWSPort s input)) = DefaultWSPort"
  using assms by (simp add: UnmarshalJSON_def Let_def split: sum.splits)

theorem UnmarshalJSON_WSPort_default_witness:
  "fst (UnmarshalJSON ex_jsonUnmarshal id 38590 ex_slave [123, 125]) = None \<and>
   WEBSOCKET_JSON_RPC_PORT ex_jsonConfig = 38591 \<and>
   WSPort (snd (UnmarshalJSON ex_jsonUnmarshal id 38590 ex_slave [123, 125])) = 38590"
proof -
  have a: "fst (UnmarshalJSON ex_jsonUnmarshal id 38590 ex_slave [123, 125]) = None"
    by (simp add: UnmarshalJSON_def ex_jsonUnmarshal_def Let_def)
  show ?thesis
    using a UnmarshalJSON_WSPort_default [OF a] by (simp add: ex_jsonConfig_def)
qed

lemma encoded_string_valid: "ValidString s \<Longrightarrow> encoded_string s = s"
proof (induction s rule: encoded_string.induct)
  case 1
  then show ?case by simp
next
  case (2 c cs)
  let ?n = "utf8_size (map of_char (c # cs))"
  from "2.prems" have n: "?n \<noteq> 0" and v: "ValidString (drop ?n (c # cs))"
    by (simp_all add: Let_def split: if_splits del: utf8_size.simps)
  have "encoded_string (drop ?n (c # cs)) = drop ?n (c # cs)"
    using "2.IH"(2)[OF refl n v] .
  then show ?case
    using n by (simp add: Let_def del: utf8_size.simps)
qed

lemma decode_uint32s_masks: "decode_uint32s (map (\<lambda>m. JUint (unat m)) ms) = Inr ms"
proof (induction ms)
  case Nil
  then show ?case by simp
next
  case (Cons m ms)
  have "unat m < 2 ^ 32"
    using unsigned_less[of m, where 'a = nat] by simp
  with Cons show ?case by simp
qed

lemma foldName_names:
  "foldName ''HOST'' = ''HOST''" "foldName ''PORT'' = ''PORT''" "foldName ''ID'' = ''ID''"
  "foldName ''WEBSOCKET_JSON_RPC_PORT'' = ''WEBSOCKET_JSON_RPC_PORT''"
  "foldName ''CHAIN_MASK_LIST'' = ''CHAIN_MASK_LIST''"
  by (simp_all add: toUpper_def)

lemma decode_field_HOST: "decode_field ''HOST'' (JString s) jc = Inr (jc\<lparr>HOST := s\<rparr>)"
  by (simp add: decode_field_def toUpper_def)

lemma decode_field_PORT:
  "decode_field ''PORT'' (JUint (unat (p :: 16 word))) jc = Inr (jc\<lparr>PORT := p\<rparr>)"
  using unsigned_less[of p, where 'a = nat] by (simp add: decode_field_def toUpper_def)

lemma decode_field_ID: "decode_field ''ID'' (JString s) jc = Inr (jc\<lparr>JSON_ID := s\<rparr>)"
  by (simp add: decode_field_def toUpper_def)

lemma decode_field_WS:
  "decode_field ''WEBSOCKET_JSON_RPC_PORT'' (JUint (unat (p :: 16 word))) jc
     = Inr (jc\<lparr>WEBSOCKET_JSON_RPC_PORT := p\<rparr>)"
  using unsigned_less[of p, where 'a = nat] by (simp add: decode_field_def toUpper_def)

lemma decode_field_MASKS:
  "decode_field ''CHAIN_MASK_LIST'' (JArray (map (\<lambda>m. JUint (unat m)) ms)) jc
     = Inr (jc\<lparr>CHAIN_MASK_LIST := ms\<rparr>)"
  by (simp add: decode_field_def toUpper_def decode_uint32s_masks)

text \<open>
  What \<^verbatim>\<open>json.Unmarshal\<close> reads out of what \<^verbatim>\<open>json.Marshal\<close> wrote: the struct, with
  the two strings as the encoder wrote them.
\<close>

lemma json_Unmarshal_Marshal:
  assumes "json_Marshal jc = Inr doc"
  shows "json_Unmarshal doc
         = Inr (jc\<lparr>HOST := encoded_string (HOST jc), JSON_ID := encoded_string (JSON_ID jc)\<rparr>)"
proof -
  have "doc = JObject
       [(''HOST'', JString (encoded_string (HOST jc))),
        (''PORT'', JUint (unat (PORT jc))),
        (''ID'', JString (encoded_string (JSON_ID jc))),
        (''WEBSOCKET_JSON_RPC_PORT'', JUint (unat (WEBSOCKET_JSON_RPC_PORT jc))),
        (''CHAIN_MASK_LIST'', JArray (map (\<lambda>m. JUint (unat m)) (CHAIN_MASK_LIST jc)))]"
    using assms by (simp add: json_Marshal_def)
  then show ?thesis
    by (simp add: json_Unmarshal_def Let_def decode_field_HOST decode_field_PORT decode_field_ID
        decode_field_WS decode_field_MASKS)
qed

lemma MarshalJSON_json:
  "MarshalJSON json_Marshal GetMask s =
     json_Marshal \<lparr>HOST = IP s, PORT = Port s, JSON_ID = ID s,
                   WEBSOCKET_JSON_RPC_PORT = WSPort s,
                   CHAIN_MASK_LIST = map GetMask (ChainMaskList s)\<rparr>"
  by (simp add: MarshalJSON_def Let_def)

lemma Marshal_Unmarshal_general:
  assumes "MarshalJSON json_Marshal GetMask s = Inr doc"
  shows "UnmarshalJSON json_Unmarshal NewChainMask DefaultWSPort s0 doc =
     (None, \<lparr>IP = encoded_string (IP s), Port = Port s, ID = encoded_string (ID s),
             WSPort = DefaultWSPort,
             ChainMaskList = map (\<lambda>c. NewChainMask (GetMask c)) (ChainMaskList s)\<rparr>)"
  using json_Unmarshal_Marshal[OF assms[unfolded MarshalJSON_json]]
  by (simp add: UnmarshalJSON_def Let_def comp_def)

text \<open>
  C10, as stated, fails: for the configuration whose \<^verbatim>\<open>IP\<close> is the byte \<open>FF\<close> both
  calls succeed, and the \<^verbatim>\<open>IP\<close> that comes back is the three bytes \<open>EF BF BD\<close>.
\<close>

theorem roundtrip_changes_non_utf8_IP:
  "MarshalJSON json_Marshal id ex_slave_ff = Inr ex_doc_ff \<and>
   fst (UnmarshalJSON json_Unmarshal id 38590 ex_slave_ff ex_doc_ff) = None \<and>
   IP (snd (UnmarshalJSON json_Unmarshal id 38590 ex_slave_ff ex_doc_ff))
     = [CHR 0xEF, CHR 0xBF, CHR 0xBD] \<and>
   IP ex_slave_ff = [CHR 0xFF] \<and>
   IP (snd (UnmarshalJSON json_Unmarshal id 38590 ex_slave_ff ex_doc_ff)) \<noteq> IP ex_slave_ff"
proof -
  have e: "encoded_string [CHR 0xFF] = [CHR 0xEF, CHR 0xBF, CHR 0xBD]"
    by simp
  have v: "ValidString ''S0''"
    by simp
  have m: "MarshalJSON json_Marshal id ex_slave_ff = Inr ex_doc_ff"
    by (simp add: MarshalJSON_def json_Marshal_def ex_slave_ff_def ex_doc_ff_def e
        encoded_string_valid[OF v] del: encoded_string.simps)
  show ?thesis
    using Marshal_Unmarshal_general[OF m, of id 38590 ex_slave_ff] m
    by (simp add: ex_slave_ff_def e del: encoded_string.simps)
qed

text \<open>
  C10, amended: for every configuration whose \<^verbatim>\<open>IP\<close> and \<^verbatim>\<open>ID\<close> are valid UTF-8,
  marshalling it and unmarshalling the result succeeds and gives back the same
  \<^verbatim>\<open>IP\<close>, \<^verbatim>\<open>Port\<close> and \<^verbatim>\<open>ID\<close>, a mask list of the same length that holds
  \<^verbatim>\<open>NewChainMask(m.GetMask())\<close> for each mask \<open>m\<close> of the original, so with the same
  masks whenever \<^verbatim>\<open>NewChainMask\<close> keeps the mask that it is given, and
  \<^verbatim>\<open>DefaultWSPort\<close> as \<^verbatim>\<open>WSPort\<close>.
\<close>

theorem MarshalJSON_UnmarshalJSON_roundtrip:
  assumes "ValidString (IP s)" and "ValidString (ID s)"
  shows "\<exists>doc. MarshalJSON json_Marshal GetMask s = Inr doc \<and>
           (let r = UnmarshalJSON json_Unmarshal NewChainMask DefaultWSPort s0 doc in
            fst r = None \<and>
            IP (snd r) = IP s \<and> Port (snd r) = Port s \<and> ID (snd r) = ID s \<and>
            length (ChainMaskList (snd r)) = length (ChainMaskList s) \<and>
            (\<forall>i < length (ChainMaskList s).
               ChainMaskList (snd r) ! i = NewChainMask (GetMask (ChainMaskList s ! i))) \<and>
            ((\<forall>c \<in> set (ChainMaskList s). GetMask (NewChainMask (GetMask c)) = GetMask c) \<longrightarrow>
             (\<forall>i < length (ChainMaskList s).
                GetMask (ChainMaskList (snd r) ! i) = GetMask (ChainMaskList s ! i))) \<and>
            WSPort (snd r) = DefaultWSPort)"
proof -
  obtain doc where m: "MarshalJSON json_Marshal GetMask s = Inr doc"
    by (simp add: MarshalJSON_def json_Marshal_def Let_def)
  show ?thesis
    using m Marshal_Unmarshal_general[OF m, of NewChainMask DefaultWSPort s0] assms
    by (auto simp: Let_def encoded_string_valid)
qed

theorem MarshalJSON_UnmarshalJSON_roundtrip_witness:
  "\<exists>doc. MarshalJSON json_Marshal id ex_slave = Inr doc \<and>
     fst (UnmarshalJSON json_Unmarshal id 38590 ex_slave doc) = None \<and>
     IP (snd (UnmarshalJSON json_Unmarshal id 38590 ex_slave doc)) = ''127.0.0.1'' \<and>
     Port (snd (UnmarshalJSON json_Unmarshal id 38590 ex_slave doc)) = 38000 \<and>
     ID (snd (UnmarshalJSON json_Unmarshal id 38590 ex_slave doc)) = ''S0'' \<and>
     length (ChainMaskList (snd (UnmarshalJSON json_Unmarshal id 38590 ex_slave doc))) = 2 \<and>
     ChainMaskList (snd (UnmarshalJSON json_Unmarshal id 38590 ex_slave doc)) ! 0 = 4 \<and>
     ChainMaskList (snd (UnmarshalJSON json_Unmarshal id 38590 ex_slave doc)) ! 1 = 5 \<and>
     WSPort (snd (UnmarshalJSON json_Unmarshal id 38590 ex_slave doc)) = 38590"
proof -
  have v: "ValidString (IP ex_slave)" "ValidString (ID ex_slave)"
    by (simp_all add: ex_slave_def)
  have g: "\<forall>c \<in> set (ChainMaskList ex_slave). id (id (id c)) = id c"
    by simp
  have f: "length (ChainMaskList ex_slave) = 2" "IP ex_slave = ''127.0.0.1''"
    "Port ex_slave = 38000" "ID ex_slave = ''S0''"
    "ChainMaskList ex_slave ! 0 = 4" "ChainMaskList ex_slave ! 1 = 5"
    by (simp_all add: ex_slave_def)
  from MarshalJSON_UnmarshalJSON_roundtrip [OF v, where GetMask = id and NewChainMask = id
      and DefaultWSPort = 38590 and ?s0.0 = ex_slave]
  obtain doc where d: "MarshalJSON json_Marshal id ex_slave = Inr doc"
    and r: "let r = UnmarshalJSON json_Unmarshal id 38590 ex_slave doc in
            fst r = None \<and>
            IP (snd r) = IP ex_slave \<and> Port (snd r) = Port ex_slave \<and> ID (snd r) = ID ex_slave \<and>
            length (ChainMaskList (snd r)) = length (ChainMaskList ex_slave) \<and>
            (\<forall>i < length (ChainMaskList ex_slave).
               ChainMaskList (snd r) ! i = id (id (ChainMaskList ex_slave ! i))) \<and>
            ((\<forall>c \<in> set (ChainMaskList ex_slave). id (id (id c)) = id c) \<longrightarrow>
             (\<forall>i < length (ChainMaskList ex_slave).
                id (ChainMaskList (snd r) ! i) = id (ChainMaskList ex_slave ! i))) \<and>
            WSPort (snd r) = 38590"
    by blast
  have "\<forall>i < 2. ChainMaskList (snd (UnmarshalJSON json_Unmarshal id 38590 ex_slave doc)) ! i
      = ChainMaskList ex_slave ! i"
    using r g f(1) by (simp add: Let_def)
  then have "ChainMaskList (snd (UnmarshalJSON json_Unmarshal id 38590 ex_slave doc)) ! 0 = 4"
    "ChainMaskList (snd (UnmarshalJSON json_Unmarshal id 38590 ex_slave doc)) ! 1 = 5"
    using f(5,6) by simp_all
  then show ?thesis
    using d r f by (intro exI[of _ doc]) (simp add: Let_def)
qed

end
